theory Spec2Isabelle
  imports Complex_Main "HOL-Library.Multiset"
begin

section \<open>JavaScript values\<close>

text \<open>
  The server is a Node.js program; its cue records are plain JavaScript objects and the
  arguments of an OSC message are untyped. A number is a finite rational, an infinity or
  NaN (rounding of doubles and the sign of zero are not represented), a string is a list
  of 8-bit characters (the white space of JavaScript beyond ASCII is not represented),
  and an object is a list of properties in insertion order.
\<close>

datatype jsnum = NaN | PosInf | NegInf | Fin rat

datatype jsval =
    JUndefined
  | JNull
  | JBool bool
  | JNum jsnum
  | JStr string
  | JArr "jsval list"
  | JObj "(string \<times> jsval) list"

type_synonym jsobj = "(string \<times> jsval) list"

subsection \<open>Characters and strings\<close>

definition is_digit :: "char \<Rightarrow> bool" where
  "is_digit c = (c \<in> set ''0123456789'')"

text \<open>The class \<open>\s\<close> of a regular expression, also what \<open>trim\<close> strips.\<close>

definition is_space :: "char \<Rightarrow> bool" where
  "is_space c = (c \<in> set [CHR '' '', CHR 0x09, CHR 0x0A, CHR 0x0B, CHR 0x0C, CHR 0x0D])"

text \<open>The line terminators, which \<open>.\<close> of a regular expression does not match.\<close>

definition is_line_terminator :: "char \<Rightarrow> bool" where
  "is_line_terminator c = (c = CHR 0x0A \<or> c = CHR 0x0D)"

definition js_trim :: "string \<Rightarrow> string" where
  "js_trim s = rev (dropWhile is_space (rev (dropWhile is_space s)))"

definition startsWith :: "string \<Rightarrow> string \<Rightarrow> bool" where
  "startsWith s p = (take (length p) s = p)"

fun includes_str :: "string \<Rightarrow> string \<Rightarrow> bool" where
  "includes_str [] p = (p = [])"
| "includes_str (c # cs) p = (startsWith (c # cs) p \<or> includes_str cs p)"

text \<open>\<open>s.split('/')\<close>: the segments between slashes, empty ones included.\<close>

fun split_slash :: "string \<Rightarrow> string list" where
  "split_slash [] = [[]]"
| "split_slash (c # cs) =
     (if c = CHR ''/'' then [] # split_slash cs
      else (case split_slash cs of
              [] \<Rightarrow> [[c]]
            | seg # segs \<Rightarrow> (c # seg) # segs))"

fun join_comma :: "string list \<Rightarrow> string" where
  "join_comma [] = []"
| "join_comma [s] = s"
| "join_comma (s # t # ss) = s @ '','' @ join_comma (t # ss)"

subsection \<open>Numbers and their text\<close>

definition digit_val :: "char \<Rightarrow> nat option" where
  "digit_val = map_of
     [(CHR ''0'', 0), (CHR ''1'', 1), (CHR ''2'', 2), (CHR ''3'', 3), (CHR ''4'', 4),
      (CHR ''5'', 5), (CHR ''6'', 6), (CHR ''7'', 7), (CHR ''8'', 8), (CHR ''9'', 9),
      (CHR ''a'', 10), (CHR ''b'', 11), (CHR ''c'', 12), (CHR ''d'', 13), (CHR ''e'', 14),
      (CHR ''f'', 15), (CHR ''A'', 10), (CHR ''B'', 11), (CHR ''C'', 12), (CHR ''D'', 13),
      (CHR ''E'', 14), (CHR ''F'', 15)]"

definition digit_char :: "nat \<Rightarrow> char" where
  "digit_char d = ''0123456789'' ! (d mod 10)"

text \<open>The longest prefix of digits of the radix, as values, and the rest of the string.\<close>

fun take_digits :: "nat \<Rightarrow> string \<Rightarrow> nat list \<times> string" where
  "take_digits r [] = ([], [])"
| "take_digits r (c # cs) =
     (case digit_val c of
        None \<Rightarrow> ([], c # cs)
      | Some d \<Rightarrow>
          if d < r then (case take_digits r cs of (ds, rest) \<Rightarrow> (d # ds, rest))
          else ([], c # cs))"

definition nat_of_digits :: "nat \<Rightarrow> nat list \<Rightarrow> nat" where
  "nat_of_digits r ds = foldl (\<lambda>a d. a * r + d) 0 ds"

definition take_sign :: "string \<Rightarrow> bool \<times> string" where
  "take_sign s =
     (case s of
        [] \<Rightarrow> (False, s)
      | c # cs \<Rightarrow>
          if c = CHR ''-'' then (True, cs)
          else if c = CHR ''+'' then (False, cs)
          else (False, s))"

definition signed :: "bool \<Rightarrow> rat \<Rightarrow> rat" where
  "signed neg r = (if neg then - r else r)"

text \<open>
  \<open>parseInt(s)\<close> with no radix: leading white space, a sign, an optional \<open>0x\<close>, then the
  longest run of digits; NaN when there is none.
\<close>

definition js_parseInt :: "string \<Rightarrow> jsnum" where
  "js_parseInt s =
     (case take_sign (dropWhile is_space s) of (neg, t) \<Rightarrow>
        (case (if startsWith t ''0x'' \<or> startsWith t ''0X'' then (16, drop 2 t) else (10, t))
         of (radix, u) \<Rightarrow>
           (case take_digits radix u of (ds, rest) \<Rightarrow>
              if ds = [] then NaN
              else Fin (signed neg (of_nat (nat_of_digits radix ds))))))"

text \<open>
  An unsigned decimal literal at the start of a string (\<open>12\<close>, \<open>12.\<close>, \<open>12.5\<close>, \<open>.5\<close>, each
  with an optional exponent), its value and the rest of the string.
\<close>

definition take_exponent :: "string \<Rightarrow> int \<times> string" where
  "take_exponent s =
     (case s of
        [] \<Rightarrow> (0, s)
      | c # cs \<Rightarrow>
          if c = CHR ''e'' \<or> c = CHR ''E'' then
            (case take_sign cs of (neg, t) \<Rightarrow>
               (case take_digits 10 t of (ds, rest) \<Rightarrow>
                  if ds = [] then (0, s)
                  else (if neg then - int (nat_of_digits 10 ds) else int (nat_of_digits 10 ds),
                        rest)))
          else (0, s))"

definition take_decimal :: "string \<Rightarrow> (rat \<times> string) option" where
  "take_decimal s =
     (case take_digits 10 s of (ip, r1) \<Rightarrow>
        (case (case r1 of
                 [] \<Rightarrow> ([], r1)
               | c # cs \<Rightarrow> if c = CHR ''.'' then take_digits 10 cs else ([], r1))
         of (fp, r2) \<Rightarrow>
           if ip = [] \<and> fp = [] then None
           else (case take_exponent r2 of (e, r3) \<Rightarrow>
                   Some (of_nat (nat_of_digits 10 (ip @ fp)) / 10 ^ length fp
                           * (if 0 \<le> e then 10 ^ nat e else 1 / 10 ^ nat (- e)),
                         r3))))"

definition js_parseFloat :: "string \<Rightarrow> jsnum" where
  "js_parseFloat s =
     (case take_sign (dropWhile is_space s) of (neg, t) \<Rightarrow>
        if startsWith t ''Infinity'' then (if neg then NegInf else PosInf)
        else (case take_decimal t of
                None \<Rightarrow> NaN
              | Some (r, rest) \<Rightarrow> Fin (signed neg r)))"

text \<open>
  The conversion of a string to a number (\<open>Number(s)\<close>, also what an arithmetic or
  relational operator does to a string operand): the whole trimmed string must be a
  numeric literal; the empty string is 0.
\<close>

definition radix_literal :: "nat \<Rightarrow> string \<Rightarrow> jsnum" where
  "radix_literal r s =
     (case take_digits r s of (ds, rest) \<Rightarrow>
        if ds \<noteq> [] \<and> rest = [] then Fin (of_nat (nat_of_digits r ds)) else NaN)"

definition str_to_number :: "string \<Rightarrow> jsnum" where
  "str_to_number s =
     (let t = js_trim s in
      if t = [] then Fin 0
      else if startsWith t ''0x'' \<or> startsWith t ''0X'' then radix_literal 16 (drop 2 t)
      else if startsWith t ''0o'' \<or> startsWith t ''0O'' then radix_literal 8 (drop 2 t)
      else if startsWith t ''0b'' \<or> startsWith t ''0B'' then radix_literal 2 (drop 2 t)
      else (case take_sign t of (neg, u) \<Rightarrow>
              if u = ''Infinity'' then (if neg then NegInf else PosInf)
              else (case take_decimal u of
                      None \<Rightarrow> NaN
                    | Some (r, rest) \<Rightarrow> if rest = [] then Fin (signed neg r) else NaN)))"

function nat_to_str :: "nat \<Rightarrow> string" where
  "nat_to_str n = (if n < 10 then [digit_char n] else nat_to_str (n div 10) @ [digit_char n])"
  by pat_completeness auto
termination
  by (relation "measure id") auto

fun frac_to_str :: "nat \<Rightarrow> rat \<Rightarrow> string" where
  "frac_to_str 0 r = []"
| "frac_to_str (Suc k) r =
     (if r = 0 then []
      else digit_char (nat \<lfloor>r * 10\<rfloor>) # frac_to_str k (r * 10 - of_int \<lfloor>r * 10\<rfloor>))"

text \<open>
  The text of a number. For a finite number it is the decimal expansion, which is what
  JavaScript prints for the values this program computes from OSC integers (magnitude
  below \<open>10\<^sup>2\<^sup>1\<close>, at most two decimals); longer expansions are cut at 20 decimals.
\<close>

definition num_to_str :: "jsnum \<Rightarrow> string" where
  "num_to_str n =
     (case n of
        NaN \<Rightarrow> ''NaN''
      | PosInf \<Rightarrow> ''Infinity''
      | NegInf \<Rightarrow> ''-Infinity''
      | Fin r \<Rightarrow>
          (if r < 0 then ''-'' else []) @ nat_to_str (nat \<lfloor>\<bar>r\<bar>\<rfloor>)
          @ (if \<bar>r\<bar> = of_int \<lfloor>\<bar>r\<bar>\<rfloor> then []
             else ''.'' @ frac_to_str 20 (\<bar>r\<bar> - of_int \<lfloor>\<bar>r\<bar>\<rfloor>)))"

subsection \<open>Conversions and operators\<close>

text \<open>\<open>String(v)\<close>, which is also what a template literal does to \<open>v\<close>.\<close>

fun js_String :: "jsval \<Rightarrow> string" where
  "js_String JUndefined = ''undefined''"
| "js_String JNull = ''null''"
| "js_String (JBool b) = (if b then ''true'' else ''false'')"
| "js_String (JNum n) = num_to_str n"
| "js_String (JStr s) = s"
| "js_String (JArr xs) =
     join_comma (map (\<lambda>x. if x = JUndefined \<or> x = JNull then [] else js_String x) xs)"
| "js_String (JObj ps) = ''[object Object]''"

definition to_number :: "jsval \<Rightarrow> jsnum" where
  "to_number v =
     (case v of
        JUndefined \<Rightarrow> NaN
      | JNull \<Rightarrow> Fin 0
      | JBool b \<Rightarrow> Fin (if b then 1 else 0)
      | JNum n \<Rightarrow> n
      | JStr s \<Rightarrow> str_to_number s
      | JArr xs \<Rightarrow> str_to_number (js_String (JArr xs))
      | JObj ps \<Rightarrow> NaN)"

definition truthy :: "jsval \<Rightarrow> bool" where
  "truthy v =
     (case v of
        JUndefined \<Rightarrow> False
      | JNull \<Rightarrow> False
      | JBool b \<Rightarrow> b
      | JNum n \<Rightarrow> n \<noteq> NaN \<and> n \<noteq> Fin 0
      | JStr s \<Rightarrow> s \<noteq> []
      | JArr xs \<Rightarrow> True
      | JObj ps \<Rightarrow> True)"

text \<open>\<open>a || b\<close>\<close>

definition js_or :: "jsval \<Rightarrow> jsval \<Rightarrow> jsval" where
  "js_or a b = (if truthy a then a else b)"

text \<open>\<open>a < b\<close> on numbers; false when either is NaN.\<close>

definition num_less :: "jsnum \<Rightarrow> jsnum \<Rightarrow> bool" where
  "num_less a b =
     (case (a, b) of
        (NaN, _) \<Rightarrow> False
      | (_, NaN) \<Rightarrow> False
      | (Fin x, Fin y) \<Rightarrow> x < y
      | (NegInf, NegInf) \<Rightarrow> False
      | (NegInf, _) \<Rightarrow> True
      | (_, PosInf) \<Rightarrow> b \<noteq> a
      | (_, _) \<Rightarrow> False)"

text \<open>\<open>a >= b\<close> on numbers: neither is NaN and \<open>a < b\<close> is false.\<close>

definition num_ge :: "jsnum \<Rightarrow> jsnum \<Rightarrow> bool" where
  "num_ge a b = (a \<noteq> NaN \<and> b \<noteq> NaN \<and> \<not> num_less a b)"

text \<open>\<open>a === b\<close> on numbers: NaN equals nothing.\<close>

definition num_seq :: "jsnum \<Rightarrow> jsnum \<Rightarrow> bool" where
  "num_seq a b = (a \<noteq> NaN \<and> a = b)"

definition num_neg :: "jsnum \<Rightarrow> jsnum" where
  "num_neg a = (case a of NaN \<Rightarrow> NaN | PosInf \<Rightarrow> NegInf | NegInf \<Rightarrow> PosInf | Fin x \<Rightarrow> Fin (- x))"

definition num_add :: "jsnum \<Rightarrow> jsnum \<Rightarrow> jsnum" where
  "num_add a b =
     (case (a, b) of
        (NaN, _) \<Rightarrow> NaN
      | (_, NaN) \<Rightarrow> NaN
      | (Fin x, Fin y) \<Rightarrow> Fin (x + y)
      | (PosInf, NegInf) \<Rightarrow> NaN
      | (NegInf, PosInf) \<Rightarrow> NaN
      | (PosInf, _) \<Rightarrow> PosInf
      | (NegInf, _) \<Rightarrow> NegInf
      | (_, c) \<Rightarrow> c)"

definition num_sub :: "jsnum \<Rightarrow> jsnum \<Rightarrow> jsnum" where
  "num_sub a b = num_add a (num_neg b)"

text \<open>Multiplication and division by a positive finite constant.\<close>

definition num_scale :: "jsnum \<Rightarrow> rat \<Rightarrow> jsnum" where
  "num_scale a k = (case a of Fin x \<Rightarrow> Fin (x * k) | _ \<Rightarrow> a)"

text \<open>\<open>Math.round\<close>: the nearest integer, a tie going up.\<close>

definition math_round :: "jsnum \<Rightarrow> jsnum" where
  "math_round a = (case a of Fin x \<Rightarrow> Fin (of_int \<lfloor>x + 1 / 2\<rfloor>) | _ \<Rightarrow> a)"

text \<open>\<open>Math.max\<close> of two numbers: NaN when either is.\<close>

definition math_max :: "jsnum \<Rightarrow> jsnum \<Rightarrow> jsnum" where
  "math_max a b = (if a = NaN \<or> b = NaN then NaN else if num_less a b then b else a)"

text \<open>\<open>v > 0\<close> and \<open>v >= 0\<close> for any value, through its conversion to a number.\<close>

definition js_gt0 :: "jsval \<Rightarrow> bool" where
  "js_gt0 v = num_less (Fin 0) (to_number v)"

definition js_ge0 :: "jsval \<Rightarrow> bool" where
  "js_ge0 v = num_ge (to_number v) (Fin 0)"

definition is_number :: "jsval \<Rightarrow> bool" where
  "is_number v = (case v of JNum n \<Rightarrow> True | _ \<Rightarrow> False)"

definition is_string :: "jsval \<Rightarrow> bool" where
  "is_string v = (case v of JStr s \<Rightarrow> True | _ \<Rightarrow> False)"

subsection \<open>Objects and arrays\<close>

text \<open>\<open>o[k]\<close>: a property that is absent reads as \<open>undefined\<close>.\<close>

definition get :: "jsobj \<Rightarrow> string \<Rightarrow> jsval" where
  "get obj k = (case map_of obj k of None \<Rightarrow> JUndefined | Some v \<Rightarrow> v)"

text \<open>\<open>o[k] = v\<close>: an existing property keeps its place, a new one goes last.\<close>

fun put :: "jsobj \<Rightarrow> string \<Rightarrow> jsval \<Rightarrow> jsobj" where
  "put [] k v = [(k, v)]"
| "put ((k', v') # ps) k v = (if k' = k then (k, v) # ps else (k', v') # put ps k v)"

definition obj_keys :: "jsobj \<Rightarrow> string list" where
  "obj_keys obj = remdups (map fst obj)"

text \<open>\<open>args[i]\<close>: \<open>undefined\<close> beyond the end.\<close>

definition arg :: "jsval list \<Rightarrow> nat \<Rightarrow> jsval" where
  "arg args i = (if i < length args then args ! i else JUndefined)"

text \<open>\<open>xs[i]\<close> for an array of strings, \<open>undefined\<close> outside of it.\<close>

definition part_at :: "string list \<Rightarrow> int \<Rightarrow> jsval" where
  "part_at xs i = (if 0 \<le> i \<and> i < int (length xs) then JStr (xs ! nat i) else JUndefined)"

text \<open>\<open>xs.indexOf(x, from)\<close>, which is \<open>-1\<close> when \<open>x\<close> is not found.\<close>

fun index_from :: "'a list \<Rightarrow> 'a \<Rightarrow> nat \<Rightarrow> nat option" where
  "index_from [] x i = None"
| "index_from (y # ys) x i = (if x = y then Some i else index_from ys x (Suc i))"

definition indexOf :: "'a list \<Rightarrow> 'a \<Rightarrow> int \<Rightarrow> int" where
  "indexOf xs x from =
     (let k = nat (if from < 0 then max 0 (int (length xs) + from) else from) in
      case index_from (drop k xs) x k of None \<Rightarrow> - 1 | Some i \<Rightarrow> int i)"

text \<open>The element found by \<open>xs.find(p)\<close> is changed in place.\<close>

fun update_first :: "('a \<Rightarrow> bool) \<Rightarrow> ('a \<Rightarrow> 'a) \<Rightarrow> 'a list \<Rightarrow> 'a list" where
  "update_first p f [] = []"
| "update_first p f (x # xs) = (if p x then f x # xs else x # update_first p f xs)"


section \<open>The program state\<close>

text \<open>
  One entry of \<open>showTimings.cueTimings\<close>. The entries a recording makes carry the cue
  number and list as strings, the way the message handlers pass them.
\<close>

record timing =
  cueNumber :: string
  cueList :: string
  label :: jsval
  timestamp :: rat
  timeFromPrevious :: rat

text \<open>
  The callbacks the refresh engine hands to \<open>setTimeout\<close> and \<open>setImmediate\<close>: the two
  stages of the count time-out of \<open>requestAllCues\<close>, and
  \<open>() => checkBulkRefreshComplete()\<close>.
\<close>

datatype timer_cb = CountFallback | CountFinal | CompletionCheck

text \<open>
  The module-level variables of the server that the cue store, the refresh engine and
  the timing engine read and write. Times are milliseconds, as \<open>Date.now()\<close> gives them;
  \<open>timers\<close> holds the pending callbacks with the time each is due. The variables
  \<open>bulkRefreshClearedCues\<close>, \<open>bulkRefreshTimeouts\<close> and \<open>bulkRefreshCountReceived\<close> are
  written but never read by the program and are left out, as are the outgoing OSC
  messages, the log and the files.
\<close>

record state =
  cues :: "jsobj list"
  cuesChanged :: bool
  bulkRefreshInProgress :: bool
  bulkRefreshCueList :: jsval
  bulkRefreshExpectedCount :: jsval
  bulkRefreshReceivedIndices :: "jsnum list"
  bulkRefreshReceivedCues :: "string list"
  bulkRefreshQueue :: "jsnum list"
  lastKnownCueCount :: jsobj
  mainPlaybackList :: string
  isRecording :: bool
  showStartTime :: "int option"
  lastCueTime :: "rat option"
  lastCueNumber :: "string option"
  cueTimings :: "timing list"
  currentShowElapsed :: rat
  lastCueFireTime :: "int option"
  currentPollRequest :: "(string \<times> string) option"
  activePollingInProgress :: bool
  timers :: "(int \<times> timer_cb) list"

section \<open>Cue store\<close>

text \<open>The list a cue belongs to, \<open>String(c.cue_list || '1')\<close>.\<close>

definition cueListOf :: "jsobj \<Rightarrow> string" where
  "cueListOf c = js_String (js_or (get c ''cue_list'') (JStr ''1''))"

text \<open>
  The key of \<open>updateOrCreateCue\<close>: \<open>list/cue\<close>, and \<open>list/cue/part\<close> when the part is
  greater than 0.
\<close>

definition mkKey :: "jsval \<Rightarrow> string \<Rightarrow> jsval \<Rightarrow> string" where
  "mkKey lst num part =
     (if js_gt0 part then js_String lst @ ''/'' @ num @ ''/'' @ js_String part
      else js_String lst @ ''/'' @ num)"

definition existingKey :: "jsobj \<Rightarrow> string" where
  "existingKey c =
     mkKey (js_or (get c ''cue_list'') (JStr ''1'')) (js_String (get c ''cue_number''))
       (js_or (get c ''part_number'') (JNum (Fin 0)))"

definition alwaysUpdateFields :: "string list" where
  "alwaysUpdateFields =
     [''last_seen'', ''mark'', ''block'', ''assert'', ''scene'', ''part_count'',
      ''part_number'', ''follow_hang'', ''follow_time'', ''hang_time'', ''up_time'',
      ''down_time'', ''focus_time'', ''color_time'', ''beam_time'', ''up_delay'',
      ''down_delay'', ''focus_delay'', ''color_delay'', ''beam_delay'', ''duration'']"

text \<open>\<open>v !== '' && v !== undefined && v !== null\<close>\<close>

definition has_data :: "jsval \<Rightarrow> bool" where
  "has_data v = (v \<noteq> JStr [] \<and> v \<noteq> JUndefined \<and> v \<noteq> JNull)"

text \<open>The body of the loop over \<open>Object.keys(updates)\<close> for an existing cue.\<close>

definition applyUpdate :: "jsobj \<Rightarrow> jsobj \<Rightarrow> string \<Rightarrow> jsobj" where
  "applyUpdate updates c k =
     (if k \<in> set alwaysUpdateFields then put c k (get updates k)
      else if has_data (get updates k) then put c k (get updates k)
      else c)"

definition applyUpdates :: "jsobj \<Rightarrow> jsobj \<Rightarrow> jsobj" where
  "applyUpdates updates c = foldl (applyUpdate updates) c (obj_keys updates)"

text \<open>The record of a cue that is not in the store yet: the defaults, then \<open>...updates\<close>.\<close>

definition newCue :: "string \<Rightarrow> jsval \<Rightarrow> jsobj \<Rightarrow> jsobj" where
  "newCue num lst updates =
     foldl (\<lambda>c k. put c k (get updates k))
       [(''cue_number'', JStr num), (''cue_list'', lst), (''label'', JStr []),
        (''fade_time'', JStr []), (''notes'', JStr []), (''color'', JStr ''#ffffff''),
        (''image_path'', JNull), (''tags'', JArr []), (''mark'', JStr []),
        (''block'', JStr []), (''assert'', JStr []), (''follow_time'', JNull),
        (''hang_time'', JNull), (''follow_hang'', JStr []), (''scene'', JStr []),
        (''part_count'', JNum (Fin 0)), (''part_number'', JNum (Fin 0)),
        (''focus_time'', JNull), (''color_time'', JNull), (''beam_time'', JNull),
        (''duration'', JNull)]
       (obj_keys updates)"

text \<open>
  The comparison function handed to \<open>cues.sort\<close>: by list (\<open>parseInt\<close>), then by cue
  number (\<open>parseFloat\<close>), then by part.
\<close>

definition cue_compare :: "jsobj \<Rightarrow> jsobj \<Rightarrow> jsnum" where
  "cue_compare a b =
     (let listA = js_parseInt (cueListOf a); listB = js_parseInt (cueListOf b) in
      if \<not> num_seq listA listB then num_sub listA listB
      else
        let numA = js_parseFloat (js_String (get a ''cue_number''));
            numB = js_parseFloat (js_String (get b ''cue_number''))
        in if \<not> num_seq numA numB then num_sub numA numB
           else num_sub (to_number (js_or (get a ''part_number'') (JNum (Fin 0))))
                  (to_number (js_or (get b ''part_number'') (JNum (Fin 0)))))"

text \<open>
  \<open>cues.sort(compare)\<close> as a stable insertion sort: an element moves behind the ones it
  compares greater than, and a result of 0 or NaN keeps the order. A stable sort is what
  JavaScript specifies when the comparison is consistent; when it is not (a list or cue
  number that does not parse) the order is left to the implementation, and only the
  elements of the result are used below, never their order.
\<close>

fun insert_cue :: "jsobj \<Rightarrow> jsobj list \<Rightarrow> jsobj list" where
  "insert_cue x [] = [x]"
| "insert_cue x (y # ys) =
     (if num_less (Fin 0) (cue_compare x y) then y # insert_cue x ys else x # y # ys)"

fun sort_cues :: "jsobj list \<Rightarrow> jsobj list" where
  "sort_cues [] = []"
| "sort_cues (x # xs) = insert_cue x (sort_cues xs)"

text \<open>The key that \<open>updateOrCreateCue\<close> looks up: list \<open>'1'\<close> and part 0 unless the updates
  say otherwise.\<close>

definition cueKey :: "string \<Rightarrow> jsobj \<Rightarrow> string" where
  "cueKey num updates =
     mkKey (js_or (get updates ''cue_list'') (JStr ''1'')) num
       (js_or (get updates ''part_number'') (JNum (Fin 0)))"

text \<open>
  What \<open>updateOrCreateCue\<close> does to the array of cues: the first cue with the key is
  updated in place, or else a new record is pushed and the array sorted.
\<close>

definition upsertCue :: "string \<Rightarrow> jsobj \<Rightarrow> jsobj list \<Rightarrow> jsobj list" where
  "upsertCue num updates cs =
     (case List.find (\<lambda>c. existingKey c = cueKey num updates) cs of
        Some existingCue \<Rightarrow>
          update_first (\<lambda>c. existingKey c = cueKey num updates) (applyUpdates updates) cs
      | None \<Rightarrow>
          sort_cues
            (cs @ [newCue num (js_or (get updates ''cue_list'') (JStr ''1'')) updates]))"

text \<open>
  \<open>updateOrCreateCue(cueNumber, updates)\<close>. Every caller passes the cue number as a
  string (a path segment, a group of a regular expression or a route parameter). During
  a refresh of the list the cue number is first noted as received.
\<close>

definition updateOrCreateCue :: "string \<Rightarrow> jsobj \<Rightarrow> state \<Rightarrow> state" where
  "updateOrCreateCue num updates st =
     (let st1 = (if bulkRefreshInProgress st
                    \<and> js_String (bulkRefreshCueList st)
                        = js_String (js_or (get updates ''cue_list'') (JStr ''1''))
                 then st\<lparr>bulkRefreshReceivedCues := List.insert num (bulkRefreshReceivedCues st)\<rparr>
                 else st)
      in st1\<lparr>cues := upsertCue num updates (cues st1)\<rparr>)"

section \<open>Refresh engine\<close>

text \<open>
  The delay a timer really gets: Node.js replaces a delay that is not a number between 1
  and \<open>2\<^sup>3\<^sup>1 - 1\<close> by 1 millisecond.
\<close>

definition node_delay :: "jsnum \<Rightarrow> int" where
  "node_delay d =
     (case d of
        Fin r \<Rightarrow> if 1 \<le> r \<and> r \<le> 2147483647 then \<lfloor>r\<rfloor> else 1
      | _ \<Rightarrow> 1)"

definition setTimeout :: "int \<Rightarrow> timer_cb \<Rightarrow> int \<Rightarrow> state \<Rightarrow> state" where
  "setTimeout now cb delay st = st\<lparr>timers := timers st @ [(now + delay, cb)]\<rparr>"

text \<open>\<open>a !== n\<close> for a variable that holds null or a number, and a number \<open>n\<close>.\<close>

definition differs_from_num :: "jsval \<Rightarrow> jsnum \<Rightarrow> bool" where
  "differs_from_num a n = (case a of JNum m \<Rightarrow> \<not> num_seq m n | _ \<Rightarrow> True)"

text \<open>
  \<open>requestAllCues(cueList)\<close> with a connection open: a request made during a refresh is
  queued, otherwise the refresh state is reset and the count is requested, with a
  time-out of 5 seconds.
\<close>

definition requestAllCues :: "int \<Rightarrow> jsnum \<Rightarrow> state \<Rightarrow> state" where
  "requestAllCues now lst st =
     (if bulkRefreshInProgress st then
        (if lst \<notin> set (bulkRefreshQueue st) \<and> differs_from_num (bulkRefreshCueList st) lst
         then st\<lparr>bulkRefreshQueue := bulkRefreshQueue st @ [lst]\<rparr>
         else st)
      else
        setTimeout now CountFallback 5000
          (st\<lparr>bulkRefreshInProgress := True,
              bulkRefreshCueList := JNum lst,
              bulkRefreshExpectedCount := JNum (Fin 0),
              bulkRefreshReceivedIndices := [],
              bulkRefreshReceivedCues := []\<rparr>))"

text \<open>The first time-out of \<open>requestAllCues\<close>: with no count yet, the fall-back requests
  go out and a final time-out of 5 more seconds is set.\<close>

definition countFallback :: "int \<Rightarrow> state \<Rightarrow> state" where
  "countFallback now st =
     (if bulkRefreshInProgress st \<and> bulkRefreshExpectedCount st = JNum (Fin 0)
      then setTimeout now CountFinal 5000 st
      else st)"

text \<open>The final time-out: with still no count, the refresh is given up.\<close>

definition countFinal :: "state \<Rightarrow> state" where
  "countFinal st =
     (if bulkRefreshInProgress st \<and> bulkRefreshExpectedCount st = JNum (Fin 0)
      then st\<lparr>bulkRefreshInProgress := False, bulkRefreshCueList := JNull\<rparr>
      else st)"

text \<open>\<open>bulkRefreshReceivedCues.has(cue.cue_number)\<close>: the set holds strings only.\<close>

definition received_has :: "string list \<Rightarrow> jsval \<Rightarrow> bool" where
  "received_has rc v = (case v of JStr s \<Rightarrow> s \<in> set rc | _ \<Rightarrow> False)"

text \<open>The predicate of the \<open>filter\<close> in \<open>checkBulkRefreshComplete\<close>.\<close>

definition keepCue :: "string \<Rightarrow> string list \<Rightarrow> jsobj \<Rightarrow> bool" where
  "keepCue cueListStr rc c =
     (if cueListOf c \<noteq> cueListStr then True
      else if received_has rc (get c ''cue_number'') then True
      else False)"

definition checkBulkRefreshComplete :: "int \<Rightarrow> state \<Rightarrow> state" where
  "checkBulkRefreshComplete now st =
     (if \<not> bulkRefreshInProgress st then st
      else
        let cueListStr = js_String (bulkRefreshCueList st);
            st1 = st\<lparr>cues := filter (keepCue cueListStr (bulkRefreshReceivedCues st)) (cues st),
                     bulkRefreshInProgress := False,
                     bulkRefreshCueList := JNull,
                     bulkRefreshExpectedCount := JNum (Fin 0),
                     bulkRefreshReceivedIndices := [],
                     bulkRefreshReceivedCues := [],
                     cuesChanged := True\<rparr>
        in case bulkRefreshQueue st1 of
             [] \<Rightarrow> st1
           | nextList # rest \<Rightarrow> requestAllCues now nextList (st1\<lparr>bulkRefreshQueue := rest\<rparr>))"

definition handleCueCountResponse :: "int \<Rightarrow> jsnum \<Rightarrow> jsval \<Rightarrow> state \<Rightarrow> state" where
  "handleCueCountResponse now lst cnt st =
     (if \<not> bulkRefreshInProgress st then st
      else if differs_from_num (bulkRefreshCueList st) lst then st
      else
        let st1 = st\<lparr>bulkRefreshExpectedCount := cnt,
                     lastKnownCueCount := put (lastKnownCueCount st) (num_to_str lst) cnt\<rparr>
        in if cnt = JNum (Fin 0) then checkBulkRefreshComplete now st1
           else setTimeout now CompletionCheck
                  (node_delay (math_max (Fin 5000) (num_scale (to_number cnt) 100))) st1)"

definition handleCueIndexResponse :: "int \<Rightarrow> jsnum \<Rightarrow> jsnum \<Rightarrow> state \<Rightarrow> state" where
  "handleCueIndexResponse now lst idx st =
     (if \<not> bulkRefreshInProgress st then st
      else if differs_from_num (bulkRefreshCueList st) lst then st
      else if bulkRefreshExpectedCount st = JNum (Fin 0) then st
      else if num_less idx (Fin 0) \<or> num_ge idx (to_number (bulkRefreshExpectedCount st))
      then st
      else
        let st1 = st\<lparr>bulkRefreshReceivedIndices :=
                       List.insert idx (bulkRefreshReceivedIndices st)\<rparr>
        in if num_ge (Fin (of_nat (length (bulkRefreshReceivedIndices st1))))
                (to_number (bulkRefreshExpectedCount st1))
           then setTimeout now CompletionCheck 0 st1
           else st1)"


section \<open>Active cue and timing engine\<close>

text \<open>
  The loop that clears \<open>last_seen\<close> of one kind on the cues of one list, which
  \<open>setActiveCueByListAndNumber\<close> and \<open>parseCueText\<close> both run.
\<close>

definition clearLastSeen :: "string \<Rightarrow> string \<Rightarrow> jsobj list \<Rightarrow> jsobj list" where
  "clearLastSeen type lst cs =
     map (\<lambda>c. if get c ''last_seen'' = JStr type \<and> cueListOf c = lst
              then put c ''last_seen'' JNull else c) cs"

text \<open>The fall-back loop of \<open>parseCueText\<close>, on the cues of every list.\<close>

definition clearLastSeenAll :: "string \<Rightarrow> jsobj list \<Rightarrow> jsobj list" where
  "clearLastSeenAll type cs =
     map (\<lambda>c. if get c ''last_seen'' = JStr type then put c ''last_seen'' JNull else c) cs"

text \<open>
  The recording block, which the source has twice (in \<open>setActiveCueByListAndNumber\<close> and
  in \<open>parseCueText\<close>); the copies differ in where the label comes from.
\<close>

definition recordTiming :: "int \<Rightarrow> string \<Rightarrow> string \<Rightarrow> jsval \<Rightarrow> state \<Rightarrow> state" where
  "recordTiming now lst cue lbl st =
     (let start = (case showStartTime st of
                     None \<Rightarrow> now
                   | Some s \<Rightarrow> if s = 0 then now else s);
          st1 = st\<lparr>showStartTime := Some start\<rparr>;
          ts = of_int (now - start) / 1000;
          tfp = (case lastCueTime st1 of
                   None \<Rightarrow> 0
                 | Some l \<Rightarrow> if 0 < l then ts - l else 0)
      in if lastCueNumber st1 \<noteq> Some cue then
           st1\<lparr>cueTimings :=
                 (case List.find (\<lambda>t. cueNumber t = cue) (cueTimings st1) of
                    Some existing \<Rightarrow>
                      update_first (\<lambda>t. cueNumber t = cue)
                        (\<lambda>t. t\<lparr>timestamp := ts, timeFromPrevious := tfp\<rparr>) (cueTimings st1)
                  | None \<Rightarrow>
                      cueTimings st1
                      @ [\<lparr>cueNumber = cue, cueList = lst, label = lbl, timestamp = ts,
                          timeFromPrevious = tfp\<rparr>]),
               lastCueTime := Some ts,
               lastCueNumber := Some cue\<rparr>
         else st1)"

definition timingBlock :: "int \<Rightarrow> string \<Rightarrow> string \<Rightarrow> string \<Rightarrow> jsval \<Rightarrow> state \<Rightarrow> state" where
  "timingBlock now type lst cue lbl st =
     (if type = ''active'' \<and> isRecording st \<and> lst = mainPlaybackList st
      then recordTiming now lst cue lbl st
      else st)"

text \<open>The playback block that follows it: the elapsed time jumps to the recorded one.\<close>

definition playbackBlock :: "int \<Rightarrow> string \<Rightarrow> string \<Rightarrow> string \<Rightarrow> state \<Rightarrow> state" where
  "playbackBlock now type lst cue st =
     (if type = ''active'' \<and> lst = mainPlaybackList st \<and> \<not> isRecording st
         \<and> cueTimings st \<noteq> []
      then (case List.find (\<lambda>t. cueNumber t = cue) (cueTimings st) of
              None \<Rightarrow> st
            | Some t \<Rightarrow> st\<lparr>currentShowElapsed := timestamp t, lastCueFireTime := Some now\<rparr>)
      else st)"

text \<open>
  \<open>setActiveCueByListAndNumber(list, cueNum, type)\<close>; the three callers pass strings.
\<close>

definition setActiveCueByListAndNumber ::
  "int \<Rightarrow> string \<Rightarrow> string \<Rightarrow> string \<Rightarrow> state \<Rightarrow> state" where
  "setActiveCueByListAndNumber now lst cueNum type st =
     (let st1 = st\<lparr>cues := clearLastSeen type lst (cues st)\<rparr>;
          isTarget = (\<lambda>c. js_String (get c ''cue_number'') = cueNum \<and> cueListOf c = lst);
          targetCue = List.find isTarget (cues st1);
          st2 = (case targetCue of
                   Some c \<Rightarrow>
                     st1\<lparr>cues := update_first isTarget
                                    (\<lambda>c. put c ''last_seen'' (JStr type)) (cues st1)\<rparr>
                 | None \<Rightarrow>
                     updateOrCreateCue cueNum
                       [(''cue_list'', JStr lst), (''last_seen'', JStr type)] st1);
          lbl = (case targetCue of
                   Some c \<Rightarrow> js_or (get c ''label'') (JStr [])
                 | None \<Rightarrow> JStr [])
      in playbackBlock now type lst cueNum (timingBlock now type lst cueNum lbl st2))"

subsection \<open>The text of the active and the pending cue\<close>

text \<open>
  The regular expressions of \<open>parseCueText\<close>, each as the matcher it denotes. In every
  one of them a repetition is followed by something its own class excludes, so the
  longest run is the only one that can match.
\<close>

text \<open>\<open>(\d+(?:\.\d+)?)\<close> at the start of a string: the cue number and the rest.\<close>

definition match_cue_number :: "string \<Rightarrow> (string \<times> string) option" where
  "match_cue_number s =
     (let d = takeWhile is_digit s; r = dropWhile is_digit s in
      if d = [] then None
      else (case r of
              [] \<Rightarrow> Some (d, r)
            | c # cs \<Rightarrow>
                if c = CHR ''.'' \<and> takeWhile is_digit cs \<noteq> []
                then Some (d @ ''.'' @ takeWhile is_digit cs, dropWhile is_digit cs)
                else Some (d, r)))"

text \<open>
  \<open>(?:\s+(.*))?$\<close> on what follows the cue number, and then
  \<open>m[3] ? m[3].trim() : ''\<close>: the remainder.
\<close>

definition match_tail :: "string \<Rightarrow> string option" where
  "match_tail s =
     (case s of
        [] \<Rightarrow> Some []
      | c # cs \<Rightarrow>
          if is_space c then
            (let r = dropWhile is_space s in
             if list_ex is_line_terminator r then None else Some (js_trim r))
          else None)"

text \<open>\<open>/^(\d+)\/(\d+(?:\.\d+)?)(?:\s+(.*))?$/\<close>: list, cue and remainder.\<close>

definition match_list_cue :: "string \<Rightarrow> (string \<times> string \<times> string) option" where
  "match_list_cue s =
     (let l = takeWhile is_digit s in
      if l = [] then None
      else (case dropWhile is_digit s of
              [] \<Rightarrow> None
            | c # cs \<Rightarrow>
                if c = CHR ''/'' then
                  (case match_cue_number cs of
                     None \<Rightarrow> None
                   | Some (cue, r) \<Rightarrow>
                       (case match_tail r of
                          None \<Rightarrow> None
                        | Some remainder \<Rightarrow> Some (l, cue, remainder)))
                else None))"

text \<open>\<open>/^(\d+(?:\.\d+)?)(?:\s+(.*))?$/\<close>: cue and remainder.\<close>

definition match_cue_only :: "string \<Rightarrow> (string \<times> string) option" where
  "match_cue_only s =
     (case match_cue_number s of
        None \<Rightarrow> None
      | Some (cue, r) \<Rightarrow>
          (case match_tail r of
             None \<Rightarrow> None
           | Some remainder \<Rightarrow> Some (cue, remainder)))"

text \<open>The class \<open>[\d.:]\<close> of the fade time.\<close>

definition is_fade :: "char \<Rightarrow> bool" where
  "is_fade c = (is_digit c \<or> c = CHR ''.'' \<or> c = CHR '':'')"

text \<open>\<open>([\d.:]+)\s+(\d+)%\s*$\<close>: fade time and percentage.\<close>

definition match_fade_pct :: "string \<Rightarrow> (string \<times> string) option" where
  "match_fade_pct s =
     (let ft = takeWhile is_fade s; r1 = dropWhile is_fade s;
          r2 = dropWhile is_space r1;
          p = takeWhile is_digit r2; r3 = dropWhile is_digit r2
      in if ft = [] \<or> takeWhile is_space r1 = [] \<or> p = [] then None
         else (case r3 of
                 [] \<Rightarrow> None
               | c # cs \<Rightarrow>
                   if c = CHR ''%'' \<and> list_all is_space cs then Some (ft, p) else None))"

text \<open>\<open>([\d.:]+)\s*$\<close>: the fade time.\<close>

definition match_fade :: "string \<Rightarrow> string option" where
  "match_fade s =
     (let ft = takeWhile is_fade s in
      if ft \<noteq> [] \<and> list_all is_space (dropWhile is_fade s) then Some ft else None)"

text \<open>\<open>\s+\<close> and then one of the two above.\<close>

definition after_space :: "(string \<Rightarrow> 'a option) \<Rightarrow> string \<Rightarrow> 'a option" where
  "after_space m s =
     (case s of
        [] \<Rightarrow> None
      | c # cs \<Rightarrow> if is_space c then m (dropWhile is_space s) else None)"

text \<open>
  The lazy group \<open>(.+?)\<close> in front of a matcher \<open>m\<close>: the shortest prefix of at least one
  character, none a line terminator, after which \<open>m\<close> matches the rest.
\<close>

fun lazy_prefix :: "(string \<Rightarrow> 'a option) \<Rightarrow> string \<Rightarrow> string \<Rightarrow> (string \<times> 'a) option" where
  "lazy_prefix m pre [] = (if pre = [] then None else map_option (Pair pre) (m []))"
| "lazy_prefix m pre (c # cs) =
     (case (if pre = [] then None else m (c # cs)) of
        Some r \<Rightarrow> Some (pre, r)
      | None \<Rightarrow> if is_line_terminator c then None else lazy_prefix m (pre @ [c]) cs)"

text \<open>
  Step 2 of \<open>parseCueText\<close>: label, fade time and completion from the remainder, the
  four patterns tried in the order of the source.
\<close>

definition parseRemainder :: "string \<Rightarrow> string \<times> string \<times> string" where
  "parseRemainder remainder =
     (case match_fade_pct remainder of
        Some (ft, p) \<Rightarrow> ([], ft, p @ ''%'')
      | None \<Rightarrow>
          (case lazy_prefix (after_space match_fade_pct) [] remainder of
             Some (l, ft, p) \<Rightarrow> (js_trim l, ft, p @ ''%'')
           | None \<Rightarrow>
               (case match_fade remainder of
                  Some ft \<Rightarrow> ([], ft, [])
                | None \<Rightarrow>
                    (case lazy_prefix (after_space match_fade) [] remainder of
                       Some (l, ft) \<Rightarrow> (js_trim l, ft, [])
                     | None \<Rightarrow> (remainder, [], [])))))"

text \<open>\<open>if (contextList)\<close>: a list that is known.\<close>

definition known_list :: "string option \<Rightarrow> bool" where
  "known_list contextList = (case contextList of None \<Rightarrow> False | Some l \<Rightarrow> l \<noteq> [])"

text \<open>The list that is known, as a string.\<close>

definition the_list :: "string option \<Rightarrow> string" where
  "the_list contextList = (case contextList of None \<Rightarrow> [] | Some l \<Rightarrow> l)"

text \<open>The texts by which the console says that there is no cue.\<close>

definition is_reset_text :: "string \<Rightarrow> bool" where
  "is_reset_text text =
     (text = [] \<or> text = ''0.0 100%'' \<or> startsWith text ''0.0 '' \<or> startsWith text ''0/0'')"

text \<open>Step 1 of the parse: list and cue number, from the text or from the context.\<close>

definition parseHeader :: "string \<Rightarrow> string option \<Rightarrow> (string \<times> string \<times> string) option" where
  "parseHeader text contextList =
     (case match_list_cue text of
        Some r \<Rightarrow> Some r
      | None \<Rightarrow>
          if known_list contextList then
            (case match_cue_only text of
               None \<Rightarrow> None
             | Some (cue, remainder) \<Rightarrow> Some (the_list contextList, cue, remainder))
          else None)"

text \<open>
  \<open>parseCueText(cueText, type, contextList)\<close>. The context list is a string or null at
  both call sites. A cue text that is not a string has no \<open>trim\<close>: the exception is
  caught by the function itself and nothing changes.
\<close>

definition parseCueText :: "int \<Rightarrow> jsval \<Rightarrow> string \<Rightarrow> string option \<Rightarrow> state \<Rightarrow> state" where
  "parseCueText now cueText type contextList st =
     (case cueText of
        JStr s \<Rightarrow>
          (let text = js_trim s in
           if is_reset_text text then
             (if known_list contextList
              then st\<lparr>cues := clearLastSeen type (the_list contextList) (cues st)\<rparr>
              else st\<lparr>cues := clearLastSeenAll type (cues st)\<rparr>)
           else
             (case parseHeader text contextList of
                None \<Rightarrow> st
              | Some (lst, cue, remainder) \<Rightarrow>
                  (case parseRemainder remainder of (lbl, fadeTime, completion) \<Rightarrow>
                     let st1 = playbackBlock now type lst cue
                                 (timingBlock now type lst cue (JStr lbl) st);
                         st2 = st1\<lparr>cues := clearLastSeen type lst (cues st1)\<rparr>;
                         updates =
                           [(''cue_list'', JStr lst), (''label'', JStr lbl),
                            (''last_seen'', JStr type), (''completion'', JStr completion)]
                           @ (if fadeTime \<noteq> [] \<and> (completion = ''0%'' \<or> type = ''pending'')
                              then [(''fade_time'', JStr fadeTime)] else [])
                     in updateOrCreateCue cue updates st2)))
      | _ \<Rightarrow> st)"


section \<open>Responses to a cue request\<close>

text \<open>\<open>Math.round(x / 10) / 100\<close>: centiseconds to seconds.\<close>

definition centi_to_sec :: "jsnum \<Rightarrow> jsnum" where
  "centi_to_sec x = num_scale (math_round (num_scale x (1 / 10))) (1 / 100)"

text \<open>
  \<open>(typeof a === 'number' && a >= 0) ? Math.round(a / 10) / 100 : null\<close>, the conversion
  of the durations at 3, 5, 7, 9 and 11 and of the follow and hang times.
\<close>

definition duration_sec :: "jsval \<Rightarrow> jsval" where
  "duration_sec a =
     (case a of
        JNum n \<Rightarrow> if num_ge n (Fin 0) then JNum (centi_to_sec n) else JNull
      | _ \<Rightarrow> JNull)"

text \<open>
  \<open>(typeof a === 'number' && a > 0) ? Math.round(a / 10) / 100 : null\<close>, the conversion
  of the delays at 4, 6, 8, 10 and 12.
\<close>

definition delay_sec :: "jsval \<Rightarrow> jsval" where
  "delay_sec a =
     (case a of
        JNum n \<Rightarrow> if num_less (Fin 0) n then JNum (centi_to_sec n) else JNull
      | _ \<Rightarrow> JNull)"

text \<open>\<open>(typeof a === 'number' && a >= 0) ? a : null\<close>\<close>

definition nonneg_or_null :: "jsval \<Rightarrow> jsval" where
  "nonneg_or_null a =
     (case a of JNum n \<Rightarrow> if num_ge n (Fin 0) then a else JNull | _ \<Rightarrow> JNull)"

text \<open>\<open>(typeof a === 'string') ? a : ''\<close>\<close>

definition string_or_empty :: "jsval \<Rightarrow> jsval" where
  "string_or_empty a = (case a of JStr s \<Rightarrow> a | _ \<Rightarrow> JStr [])"

text \<open>The overall duration: the greatest of the five, in seconds, null when not positive.\<close>

definition durationSec :: "jsval list \<Rightarrow> jsval" where
  "durationSec args =
     (let z = JNum (Fin 0);
          duration =
            math_max (to_number (js_or (nonneg_or_null (arg args 3)) z))
              (math_max (to_number (js_or (nonneg_or_null (arg args 5)) z))
                 (math_max (to_number (js_or (arg args 7) z))
                    (math_max (to_number (js_or (arg args 9) z))
                       (to_number (js_or (arg args 11) z)))))
      in if num_less (Fin 0) duration then JNum (centi_to_sec duration) else JNull)"

text \<open>The two arrows of the fade time display, in UTF-8.\<close>

definition up_arrow :: string where
  "up_arrow = [CHR 0xE2, CHR 0x86, CHR 0x91]"

definition down_arrow :: string where
  "down_arrow = [CHR 0xE2, CHR 0x86, CHR 0x93]"

definition fadeTimeDisplay :: "jsval \<Rightarrow> jsval \<Rightarrow> string" where
  "fadeTimeDisplay upTime downTime =
     (if upTime \<noteq> JNull \<and> downTime \<noteq> JNull then
        (if num_seq (to_number upTime) (to_number downTime) then js_String upTime
         else up_arrow @ js_String upTime @ '' '' @ down_arrow @ js_String downTime)
      else if upTime \<noteq> JNull then js_String upTime
      else if downTime \<noteq> JNull then js_String downTime
      else [])"

definition followHangDisplay :: "jsval \<Rightarrow> jsval \<Rightarrow> string" where
  "followHangDisplay followTime hangTime =
     (let f = (if followTime \<noteq> JNull then ''F'' @ js_String followTime else [])
      in if hangTime \<noteq> JNull
         then (if f \<noteq> [] then f @ '' '' else f) @ ''H'' @ js_String hangTime
         else f)"

text \<open>The object that a cue response hands to \<open>updateOrCreateCue\<close>.\<close>

definition cueUpdates :: "jsval \<Rightarrow> jsval \<Rightarrow> jsval list \<Rightarrow> jsobj" where
  "cueUpdates listNum partNumber args =
     [(''label'', string_or_empty (arg args 2)),
      (''uid'', arg args 1),
      (''cue_list'', listNum),
      (''fade_time'', JStr (fadeTimeDisplay (duration_sec (arg args 3)) (duration_sec (arg args 5)))),
      (''up_time'', duration_sec (arg args 3)),
      (''down_time'', duration_sec (arg args 5)),
      (''focus_time'', duration_sec (arg args 7)),
      (''color_time'', duration_sec (arg args 9)),
      (''beam_time'', duration_sec (arg args 11)),
      (''up_delay'', delay_sec (arg args 4)),
      (''down_delay'', delay_sec (arg args 6)),
      (''focus_delay'', delay_sec (arg args 8)),
      (''color_delay'', delay_sec (arg args 10)),
      (''beam_delay'', delay_sec (arg args 12)),
      (''mark'', string_or_empty (arg args 16)),
      (''block'', string_or_empty (arg args 17)),
      (''assert'', string_or_empty (arg args 18)),
      (''follow_time'', duration_sec (arg args 20)),
      (''hang_time'', duration_sec (arg args 21)),
      (''follow_hang'',
         JStr (followHangDisplay (duration_sec (arg args 20)) (duration_sec (arg args 21)))),
      (''part_count'', (case arg args 26 of JNum n \<Rightarrow> JNum n | _ \<Rightarrow> JNum (Fin 0))),
      (''scene'', string_or_empty (arg args 28)),
      (''scene_end'', JBool (arg args 29 = JBool True \<or> arg args 29 = JNum (Fin 1))),
      (''duration'', durationSec args),
      (''part_number'',
         js_or (JNum (js_parseInt (js_String partNumber))) (JNum (Fin 0)))]"

text \<open>
  The branch of \<open>parseEOSCueMessage\<close> for a response that carries cue data, from the
  pieces of the path. The log line reads \<open>uid?.substring(0, 8)\<close>, which throws for a UID
  that is neither a string nor null nor undefined; the exception is caught at the end of
  \<open>parseEOSCueMessage\<close> and the message has no effect.
\<close>

definition cueDataResponse ::
  "int \<Rightarrow> jsval \<Rightarrow> jsval \<Rightarrow> jsval \<Rightarrow> jsval \<Rightarrow> jsval list \<Rightarrow> state \<Rightarrow> state" where
  "cueDataResponse now listNum cueNum partNumber pathCount args st =
     (if \<not> (arg args 1 = JUndefined \<or> arg args 1 = JNull \<or> is_string (arg args 1)) then st
      else
        let st1 = (if bulkRefreshInProgress st \<and> pathCount \<noteq> JNull
                      \<and> bulkRefreshExpectedCount st = JNum (Fin 0)
                   then setTimeout now CompletionCheck
                          (node_delay (math_max (Fin 5000) (num_scale (to_number pathCount) 50)))
                          (st\<lparr>bulkRefreshExpectedCount := pathCount\<rparr>)
                   else st);
            st2 = (case arg args 0 of
                     JNum listIndex \<Rightarrow>
                       handleCueIndexResponse now (js_parseInt (js_String listNum)) listIndex st1
                   | _ \<Rightarrow> st1)
        in if truthy cueNum \<and> cueNum \<noteq> JStr ''0''
              \<and> num_ge (js_parseInt (js_String listNum)) (Fin 0)
           then
             (let st3 = updateOrCreateCue (js_String cueNum)
                          (cueUpdates listNum partNumber args) st2
              in case currentPollRequest st3 of
                   None \<Rightarrow> st3
                 | Some (pollList, pollType) \<Rightarrow>
                     if activePollingInProgress st3 \<and> js_String listNum = pollList
                     then (setActiveCueByListAndNumber now (js_String listNum)
                             (js_String cueNum) pollType st3)
                          \<lparr>cuesChanged := True, activePollingInProgress := False,
                           currentPollRequest := None\<rparr>
                     else st3)
           else st2)"

text \<open>
  The block of \<open>parseEOSCueMessage\<close> that handles the responses to a \<open>get\<close>, for an
  address that no earlier block has returned on: the pieces of the path, then the count
  response or the cue data.
\<close>

definition getResponse :: "int \<Rightarrow> string \<Rightarrow> jsval list \<Rightarrow> state \<Rightarrow> state" where
  "getResponse now address args st =
     (if \<not> (includes_str address ''/eos/out/get/cue/''
             \<or> includes_str address ''/eos/out/get/cuelist/'') then st
      else if includes_str address ''/fx/'' \<or> includes_str address ''/actions/''
              \<or> includes_str address ''/links/'' \<or> includes_str address ''/curves/'' then st
      else
        let pathParts = split_slash address;
            isWildcard = includes_str address ''/eos/out/get/cuelist/'';
            cuelistIdx = indexOf pathParts ''cuelist'' 0;
            cueIdx = (if isWildcard then indexOf pathParts ''cue'' cuelistIdx
                      else indexOf pathParts ''cue'' 0);
            listNum = (if isWildcard then part_at pathParts (cuelistIdx + 1)
                       else part_at pathParts (cueIdx + 1));
            cueNum = (if isWildcard then part_at pathParts (cueIdx + 1)
                         else part_at pathParts (cueIdx + 2));
            partNumber = (if isWildcard then part_at pathParts (cueIdx + 2)
                          else part_at pathParts (cueIdx + 3))
        in if ''count'' \<in> set pathParts
           then handleCueCountResponse now (js_parseInt (js_String listNum)) (arg args 0) st
           else
             let listIdx = indexOf pathParts ''list'' 0;
                 pathCount = (if 0 < listIdx
                              then JNum (js_parseInt (js_String (part_at pathParts (listIdx + 2))))
                              else JNull)
             in cueDataResponse now listNum cueNum partNumber pathCount args st)"

section \<open>Events\<close>

text \<open>The handlers of the two text addresses: the context list is the one of the
  address or else the one of the outstanding poll.\<close>

definition contextList :: "string \<Rightarrow> string option \<Rightarrow> state \<Rightarrow> string option" where
  "contextList type addrList st =
     (let pollList = (case currentPollRequest st of
                        None \<Rightarrow> None
                      | Some (l, t) \<Rightarrow> if t = type then Some l else None)
      in if known_list addrList then addrList else pollList)"

definition cueTextMessage ::
  "int \<Rightarrow> string \<Rightarrow> string option \<Rightarrow> jsval list \<Rightarrow> state \<Rightarrow> state" where
  "cueTextMessage now type addrList args st =
     (let cueText = js_or (arg args 0) (JStr []);
          st1 = parseCueText now cueText type (contextList type addrList st) st;
          st2 = (case currentPollRequest st1 of
                   None \<Rightarrow> st1
                 | Some (l, t) \<Rightarrow>
                     if activePollingInProgress st1 \<and> t = type
                     then st1\<lparr>activePollingInProgress := False, currentPollRequest := None\<rparr>
                     else st1)
      in st2\<lparr>cuesChanged := True\<rparr>)"

text \<open>The handlers of \<open>/eos/out/active/cue/<list>/<cue>\<close> and of its pending twin.\<close>

definition cuePerListMessage :: "int \<Rightarrow> string \<Rightarrow> string \<Rightarrow> string \<Rightarrow> state \<Rightarrow> state" where
  "cuePerListMessage now type lst cueNum st =
     (setActiveCueByListAndNumber now lst cueNum type st)\<lparr>cuesChanged := True\<rparr>"

text \<open>The routes that store what the user writes on a cue.\<close>

definition postNotes :: "string \<Rightarrow> jsval \<Rightarrow> state \<Rightarrow> state" where
  "postNotes num notes st = updateOrCreateCue num [(''notes'', notes)] st"

definition postColor :: "string \<Rightarrow> jsval \<Rightarrow> state \<Rightarrow> state" where
  "postColor num color st = updateOrCreateCue num [(''color'', color)] st"

definition postTags :: "string \<Rightarrow> jsval \<Rightarrow> state \<Rightarrow> state" where
  "postTags num tags st =
     updateOrCreateCue num [(''tags'', (case tags of JArr xs \<Rightarrow> tags | _ \<Rightarrow> JArr []))] st"

text \<open>\<open>POST /api/show-timings/start\<close> and \<open>stop\<close>.\<close>

definition postTimingsStart :: "int \<Rightarrow> state \<Rightarrow> state" where
  "postTimingsStart now st =
     st\<lparr>isRecording := True, showStartTime := Some now, lastCueTime := None,
        lastCueNumber := None, cueTimings := [], currentShowElapsed := 0,
        lastCueFireTime := None\<rparr>"

definition postTimingsStop :: "state \<Rightarrow> state" where
  "postTimingsStop st = st\<lparr>isRecording := False\<rparr>"

text \<open>A pending callback runs and leaves the list of timers.\<close>

definition runCallback :: "int \<Rightarrow> timer_cb \<Rightarrow> state \<Rightarrow> state" where
  "runCallback now cb st =
     (case cb of
        CountFallback \<Rightarrow> countFallback now st
      | CountFinal \<Rightarrow> countFinal st
      | CompletionCheck \<Rightarrow> checkBulkRefreshComplete now st)"

definition fireTimer :: "int \<Rightarrow> nat \<Rightarrow> state \<Rightarrow> state" where
  "fireTimer now k st =
     (if k < length (timers st)
      then runCallback now (snd (timers st ! k))
             (st\<lparr>timers := take k (timers st) @ drop (Suc k) (timers st)\<rparr>)
      else st)"

text \<open>
  What the event loop can hand to the program: a message of the console (the response to
  a \<open>get\<close>, the text of the active or pending cue with the list of its address, the
  active or pending cue of one list), a call of \<open>requestAllCues\<close> (when a cue list is
  discovered or its cue count has changed), a timer that is due, and the calls of the
  browser.
\<close>

datatype event =
    OscGet string "jsval list"
  | OscCueText string "string option" "jsval list"
  | OscCuePerList string string string
  | RequestAllCues jsnum
  | TimerFired nat
  | PostNotes string jsval
  | PostColor string jsval
  | PostTags string jsval
  | PostTimingsStart
  | PostTimingsStop

definition step :: "int \<Rightarrow> event \<Rightarrow> state \<Rightarrow> state" where
  "step now ev st =
     (case ev of
        OscGet address args \<Rightarrow> getResponse now address args st
      | OscCueText type addrList args \<Rightarrow> cueTextMessage now type addrList args st
      | OscCuePerList type lst cueNum \<Rightarrow> cuePerListMessage now type lst cueNum st
      | RequestAllCues lst \<Rightarrow> requestAllCues now lst st
      | TimerFired k \<Rightarrow> fireTimer now k st
      | PostNotes num notes \<Rightarrow> postNotes num notes st
      | PostColor num color \<Rightarrow> postColor num color st
      | PostTags num tags \<Rightarrow> postTags num tags st
      | PostTimingsStart \<Rightarrow> postTimingsStart now st
      | PostTimingsStop \<Rightarrow> postTimingsStop st)"

text \<open>
  A schedule the event loop can produce: time does not go back; a timer fires when it is
  due, the one that is due first (the older one of two that are due together); and no
  other event is handled while a timer is overdue.
\<close>

definition can_happen :: "int \<Rightarrow> event \<Rightarrow> state \<Rightarrow> bool" where
  "can_happen now ev st =
     (case ev of
        TimerFired k \<Rightarrow>
          k < length (timers st) \<and> fst (timers st ! k) \<le> now
          \<and> list_all (\<lambda>t. fst (timers st ! k) \<le> fst t) (timers st)
          \<and> list_all (\<lambda>t. fst t \<noteq> fst (timers st ! k)) (take k (timers st))
      | _ \<Rightarrow> list_all (\<lambda>t. now \<le> fst t) (timers st))"

fun run :: "int \<Rightarrow> (int \<times> event) list \<Rightarrow> state \<Rightarrow> state option" where
  "run t [] st = Some st"
| "run t ((now, ev) # evs) st =
     (if t \<le> now \<and> can_happen now ev st then run now evs (step now ev st) else None)"


text \<open>Events handled one after the other, each at its time.\<close>

fun steps :: "(int \<times> event) list \<Rightarrow> state \<Rightarrow> state" where
  "steps [] st = st"
| "steps ((now, ev) # evs) st = steps evs (step now ev st)"

section \<open>Notions of the specification\<close>

text \<open>The fields that belong to the user.\<close>

definition user_fields :: "string list" where
  "user_fields = [''notes'', ''color'', ''tags'', ''page'', ''image_path'']"

text \<open>
  The fields that data of the console can write: the keys of the update objects built
  from a cue response, from the text of the active or pending cue and from an active or
  pending cue of one list.
\<close>

definition console_fields :: "string list" where
  "console_fields =
     [''label'', ''uid'', ''cue_list'', ''fade_time'', ''up_time'', ''down_time'',
      ''focus_time'', ''color_time'', ''beam_time'', ''up_delay'', ''down_delay'',
      ''focus_delay'', ''color_delay'', ''beam_delay'', ''mark'', ''block'', ''assert'',
      ''follow_time'', ''hang_time'', ''follow_hang'', ''part_count'', ''scene'',
      ''scene_end'', ''duration'', ''part_number'', ''last_seen'', ''completion'']"

text \<open>The cue \<open>c'\<close> is the cue \<open>c\<close> but for fields that the console writes.\<close>

definition same_but_console :: "jsobj \<Rightarrow> jsobj \<Rightarrow> bool" where
  "same_but_console c c' = (\<forall>k. k \<notin> set console_fields \<longrightarrow> get c' k = get c k)"

text \<open>The user fields of a record that has just been created.\<close>

definition user_defaults :: "jsobj \<Rightarrow> bool" where
  "user_defaults c =
     (get c ''notes'' = JStr [] \<and> get c ''color'' = JStr ''#ffffff''
      \<and> get c ''tags'' = JArr [] \<and> get c ''page'' = JUndefined
      \<and> get c ''image_path'' = JNull)"

text \<open>
  Between two stores: every cue of the second is a cue of the first, changed at most in
  fields that the console writes, or a record created since with the user fields at
  their defaults.
\<close>

definition user_data_kept :: "jsobj list \<Rightarrow> jsobj list \<Rightarrow> bool" where
  "user_data_kept cs cs' =
     (\<forall>c' \<in> set cs'. (\<exists>c \<in> set cs. same_but_console c c') \<or> user_defaults c')"


text \<open>
  A text without a slash, as the lists and the cue numbers of the console are: those of
  an address are pieces of a path, and those of a cue text are runs of digits and dots.
\<close>

definition slash_free :: "string \<Rightarrow> bool" where
  "slash_free s = (CHR ''/'' \<notin> set s)"

text \<open>A cue whose list and number hold no slash, so that its key tells them apart.\<close>

definition plain_cue :: "jsobj \<Rightarrow> bool" where
  "plain_cue c = (slash_free (cueListOf c) \<and> slash_free (js_String (get c ''cue_number'')))"

text \<open>A state in which every cue is such a cue, and so is the list of the poll that is
  outstanding.\<close>

definition plain_state :: "state \<Rightarrow> bool" where
  "plain_state st =
     (list_all plain_cue (cues st)
      \<and> (case currentPollRequest st of None \<Rightarrow> True | Some (l, t) \<Rightarrow> slash_free l))"

text \<open>
  The events that are not the user editing a cue: the messages of the console, with a
  list and a cue number without a slash, the refresh requests, the timers and the
  start and the stop of a recording.
\<close>

definition console_event :: "event \<Rightarrow> bool" where
  "console_event ev =
     (case ev of
        PostNotes num v \<Rightarrow> False
      | PostColor num v \<Rightarrow> False
      | PostTags num v \<Rightarrow> False
      | OscCuePerList type lst cueNum \<Rightarrow> slash_free lst \<and> slash_free cueNum
      | OscCueText type addrList args \<Rightarrow> slash_free (the_list addrList)
      | _ \<Rightarrow> True)"

text \<open>The cue \<open>c'\<close> has the user fields of the cue \<open>c\<close>.\<close>

definition same_user_fields :: "jsobj \<Rightarrow> jsobj \<Rightarrow> bool" where
  "same_user_fields c c' = list_all (\<lambda>k. get c' k = get c k) user_fields"

text \<open>
  The key survives the events: a cue with the key is in the store before the first
  event, after the last one, and after every one in between.
\<close>

fun key_survives :: "string \<Rightarrow> (int \<times> event) list \<Rightarrow> state \<Rightarrow> bool" where
  "key_survives k [] st = list_ex (\<lambda>c. existingKey c = k) (cues st)"
| "key_survives k ((now, ev) # evs) st =
     (list_ex (\<lambda>c. existingKey c = k) (cues st) \<and> key_survives k evs (step now ev st))"

text \<open>
  Between two stores: every cue of the second whose key is a key of the first is, but
  for fields that the console writes, a cue of the first with that key.
\<close>

definition kept_by_key :: "jsobj list \<Rightarrow> jsobj list \<Rightarrow> bool" where
  "kept_by_key cs cs' =
     (\<forall>c' \<in> set cs'. existingKey c' \<in> existingKey ` set cs
        \<longrightarrow> (\<exists>c \<in> set cs. existingKey c = existingKey c' \<and> same_but_console c c'))"

text \<open>
  A change of the store that evicts nothing: the above, no key of the first store is
  missing in the second, and the cues stay plain when they were.
\<close>

definition carried :: "jsobj list \<Rightarrow> jsobj list \<Rightarrow> bool" where
  "carried cs cs' =
     (list_all plain_cue cs
      \<longrightarrow> list_all plain_cue cs' \<and> kept_by_key cs cs'
          \<and> existingKey ` set cs \<subseteq> existingKey ` set cs')"

text \<open>The number of cues of a list that are marked active (or pending).\<close>

definition seen_count :: "string \<Rightarrow> string \<Rightarrow> jsobj list \<Rightarrow> nat" where
  "seen_count type lst cs =
     length (filter (\<lambda>c. get c ''last_seen'' = JStr type \<and> cueListOf c = lst) cs)"

text \<open>No list of the store has two cues marked active (or pending).\<close>

definition one_per_list :: "string \<Rightarrow> jsobj list \<Rightarrow> bool" where
  "one_per_list type cs = list_all (\<lambda>c. seen_count type (cueListOf c) cs \<le> 1) cs"

text \<open>
  The events of the active and the pending cue, as the address patterns of
  \<open>parseEOSCueMessage\<close> let them through: the list of an address is a run of digits.
\<close>

definition digits :: "string \<Rightarrow> bool" where
  "digits s = (s \<noteq> [] \<and> list_all is_digit s)"

definition cue_event :: "event \<Rightarrow> bool" where
  "cue_event ev =
     (case ev of
        OscCuePerList type lst cueNum \<Rightarrow> digits lst
      | OscCueText type addrList args \<Rightarrow> True
      | _ \<Rightarrow> False)"

text \<open>
  The list and the number of the cue that an event reports as the active one: those of
  the address, or those parsed from a text that is not a reset.
\<close>

definition active_cue_of :: "event \<Rightarrow> state \<Rightarrow> (string \<times> string) option" where
  "active_cue_of ev st =
     (case ev of
        OscCuePerList type lst cueNum \<Rightarrow> if type = ''active'' then Some (lst, cueNum) else None
      | OscCueText type addrList args \<Rightarrow>
          if type = ''active'' then
            (case js_or (arg args 0) (JStr []) of
               JStr s \<Rightarrow>
                 if is_reset_text (js_trim s) then None
                 else map_option (\<lambda>(lst, cue, remainder). (lst, cue))
                        (parseHeader (js_trim s) (contextList type addrList st))
             | _ \<Rightarrow> None)
          else None
      | _ \<Rightarrow> None)"

text \<open>
  The kind (active or pending), the list and the number of the cue that an event
  reports: those of the address, or those parsed from a text that is not a reset.
\<close>

definition cue_of_event :: "event \<Rightarrow> state \<Rightarrow> (string \<times> string \<times> string) option" where
  "cue_of_event ev st =
     (case ev of
        OscCuePerList type lst cueNum \<Rightarrow> Some (type, lst, cueNum)
      | OscCueText type addrList args \<Rightarrow>
          (case js_or (arg args 0) (JStr []) of
             JStr s \<Rightarrow>
               if is_reset_text (js_trim s) then None
               else map_option (\<lambda>(lst, cue, remainder). (type, lst, cue))
                      (parseHeader (js_trim s) (contextList type addrList st))
           | _ \<Rightarrow> None)
      | _ \<Rightarrow> None)"

text \<open>The time from which a recording counts: \<open>showStartTime\<close>, or now when it is not set.\<close>

definition start_time :: "int \<Rightarrow> state \<Rightarrow> int" where
  "start_time now st =
     (case showStartTime st of None \<Rightarrow> now | Some s \<Rightarrow> if s = 0 then now else s)"

text \<open>The object \<open>showTimings\<close> of the source, which is what the timings file holds.\<close>

definition showTimings ::
  "state \<Rightarrow> bool \<times> int option \<times> rat option \<times> string option \<times> timing list" where
  "showTimings st =
     (isRecording st, showStartTime st, lastCueTime st, lastCueNumber st, cueTimings st)"

text \<open>The recorded timings hold at most one entry for a cue number.\<close>

definition one_entry_per_cue :: "state \<Rightarrow> bool" where
  "one_entry_per_cue st = distinct (map cueNumber (cueTimings st))"

text \<open>Where the durations and the delays of a cue response stand, and their fields.\<close>

definition duration_slots :: "(nat \<times> string) list" where
  "duration_slots =
     [(3, ''up_time''), (5, ''down_time''), (7, ''focus_time''), (9, ''color_time''),
      (11, ''beam_time'')]"

definition delay_slots :: "(nat \<times> string) list" where
  "delay_slots =
     [(4, ''up_delay''), (6, ''down_delay''), (8, ''focus_delay''), (10, ''color_delay''),
      (12, ''beam_delay'')]"

section \<open>States and cues of the examples\<close>

text \<open>The variables as the server initialises them, with an empty show.\<close>

definition initial_state :: state where
  "initial_state =
     \<lparr>cues = [], cuesChanged = False, bulkRefreshInProgress = False,
      bulkRefreshCueList = JNull, bulkRefreshExpectedCount = JNum (Fin 0),
      bulkRefreshReceivedIndices = [], bulkRefreshReceivedCues = [],
      bulkRefreshQueue = [], lastKnownCueCount = [], mainPlaybackList = ''1'',
      isRecording = False, showStartTime = None, lastCueTime = None,
      lastCueNumber = None, cueTimings = [], currentShowElapsed = 0,
      lastCueFireTime = None, currentPollRequest = None,
      activePollingInProgress = False, timers = []\<rparr>"

text \<open>A cue with notes of the user, and one that is marked active or pending.\<close>

definition noted_cue :: "string \<Rightarrow> string \<Rightarrow> string \<Rightarrow> jsobj" where
  "noted_cue lst num notes =
     [(''cue_number'', JStr num), (''cue_list'', JStr lst), (''notes'', JStr notes)]"

definition seen_cue :: "string \<Rightarrow> string \<Rightarrow> string \<Rightarrow> jsobj" where
  "seen_cue lst num type =
     [(''cue_number'', JStr num), (''cue_list'', JStr lst), (''last_seen'', JStr type)]"

text \<open>A refresh of list 1 that has received cue 5, over a store of three cues.\<close>

definition refreshing_state :: state where
  "refreshing_state =
     initial_state
       \<lparr>cues := [noted_cue ''1'' ''5'' ''hello'', noted_cue ''1'' ''6'' ''bye'',
                 noted_cue ''2'' ''10'' ''other''],
        bulkRefreshInProgress := True,
        bulkRefreshCueList := JNum (Fin 1),
        bulkRefreshExpectedCount := JNum (Fin 2),
        bulkRefreshReceivedIndices := [Fin 0],
        bulkRefreshReceivedCues := [''5'']\<rparr>"

text \<open>A store in which list 1 and list 2 each have their active cue.\<close>

definition two_lists_active :: state where
  "two_lists_active =
     initial_state
       \<lparr>cues := [seen_cue ''1'' ''5'' ''active'', seen_cue ''2'' ''9'' ''active'']\<rparr>"

text \<open>A recording started at time 1000, in which nothing has fired yet.\<close>

definition recording_state :: state where
  "recording_state = postTimingsStart 1000 initial_state"

text \<open>A recording in which cue 5 has fired at 5 seconds and cue 6 at 8 seconds.\<close>

definition two_cues_recorded :: state where
  "two_cues_recorded =
     steps [(6000, OscCuePerList ''active'' ''1'' ''5''),
            (9000, OscCuePerList ''active'' ''1'' ''6'')] recording_state"




text \<open>
  The same refresh over a store that has a cue 7 in list 1 as well, which the console
  does not report.
\<close>

definition refresh_with_a_cue_to_evict :: state where
  "refresh_with_a_cue_to_evict =
     refreshing_state
       \<lparr>cues := [noted_cue ''1'' ''5'' ''hello'', noted_cue ''1'' ''6'' ''bye'',
                 noted_cue ''1'' ''7'' ''gone'', noted_cue ''2'' ''10'' ''other'']\<rparr>"

section \<open>Basic facts\<close>

lemma get_put: "get (put obj k v) k' = (if k' = k then v else get obj k')"
  by (induction obj) (auto simp: get_def)

lemma get_Nil [simp]: "get [] k = JUndefined"
  by (simp add: get_def)

lemma get_Cons [simp]: "get ((k', v) # ps) k = (if k' = k then v else get ps k)"
  by (auto simp: get_def)

lemma cues_setTimeout [simp]: "cues (setTimeout now cb d st) = cues st"
  by (simp add: setTimeout_def)

lemma cues_requestAllCues [simp]: "cues (requestAllCues now l st) = cues st"
  by (simp add: requestAllCues_def)

lemma cues_checkBulkRefreshComplete:
  "cues (checkBulkRefreshComplete now st) =
     (if bulkRefreshInProgress st
      then filter (keepCue (js_String (bulkRefreshCueList st)) (bulkRefreshReceivedCues st))
             (cues st)
      else cues st)"
  by (simp add: checkBulkRefreshComplete_def Let_def split: list.splits)

lemma num_to_str_one [simp]: "num_to_str (Fin 1) = ''1''"
  by (simp add: num_to_str_def digit_char_def)

lemma cueListOf_noted_cue [simp]: "cueListOf (noted_cue lst num notes) = (if lst = [] then ''1'' else lst)"
  by (simp add: cueListOf_def noted_cue_def js_or_def truthy_def)

section \<open>Eviction\<close>

text \<open>
  C2. The clean-up that ends a refresh of list \<open>L\<close> keeps, of the cues of \<open>L\<close>, exactly
  those whose cue number was received, in their order and unchanged, and it keeps every
  cue of another list, in their order and unchanged.
\<close>

theorem cleanup_evicts_exactly_the_unreceived:
  assumes "bulkRefreshInProgress st"
  shows "(\<forall>c \<in> set (cues (checkBulkRefreshComplete now st)).
            cueListOf c = js_String (bulkRefreshCueList st)
            \<longrightarrow> received_has (bulkRefreshReceivedCues st) (get c ''cue_number''))
       \<and> filter (\<lambda>c. cueListOf c = js_String (bulkRefreshCueList st)
                      \<and> received_has (bulkRefreshReceivedCues st) (get c ''cue_number''))
            (cues (checkBulkRefreshComplete now st))
         = filter (\<lambda>c. cueListOf c = js_String (bulkRefreshCueList st)
                      \<and> received_has (bulkRefreshReceivedCues st) (get c ''cue_number''))
            (cues st)
       \<and> filter (\<lambda>c. cueListOf c \<noteq> js_String (bulkRefreshCueList st))
            (cues (checkBulkRefreshComplete now st))
         = filter (\<lambda>c. cueListOf c \<noteq> js_String (bulkRefreshCueList st)) (cues st)"
proof -
  have "cues (checkBulkRefreshComplete now st)
        = filter (keepCue (js_String (bulkRefreshCueList st)) (bulkRefreshReceivedCues st))
            (cues st)"
    using assms by (simp add: cues_checkBulkRefreshComplete)
  then show ?thesis
    by (auto simp: keepCue_def intro!: filter_cong)
qed

theorem cleanup_of_the_refreshing_state:
  "bulkRefreshInProgress refreshing_state
   \<and> filter (\<lambda>c. cueListOf c = ''1'' \<and> received_has [''5''] (get c ''cue_number''))
        (cues (checkBulkRefreshComplete 0 refreshing_state))
     = [noted_cue ''1'' ''5'' ''hello'']
   \<and> filter (\<lambda>c. cueListOf c \<noteq> ''1'') (cues (checkBulkRefreshComplete 0 refreshing_state))
     = [noted_cue ''2'' ''10'' ''other'']"
proof -
  have h: "bulkRefreshInProgress refreshing_state"
    by (simp add: refreshing_state_def initial_state_def)
  have l: "js_String (bulkRefreshCueList refreshing_state) = ''1''"
    by (simp add: refreshing_state_def initial_state_def)
  have k: "bulkRefreshReceivedCues refreshing_state = [''5'']"
    by (simp add: refreshing_state_def initial_state_def)
  have c: "cues refreshing_state
           = [noted_cue ''1'' ''5'' ''hello'', noted_cue ''1'' ''6'' ''bye'',
              noted_cue ''2'' ''10'' ''other'']"
    by (simp add: refreshing_state_def initial_state_def)
  have n: "get (noted_cue a b d) ''cue_number'' = JStr b" for a b d
    by (simp add: noted_cue_def)
  show ?thesis
    using h cleanup_evicts_exactly_the_unreceived [OF h, of 0]
    by (simp add: l k c n received_has_def)
qed

section \<open>Times of a cue response\<close>

lemma centi_to_sec_of_int:
  "centi_to_sec (Fin (of_int x)) = Fin (of_int \<lfloor>(of_int x :: rat) / 10 + 1 / 2\<rfloor> / 100)"
  by (simp add: centi_to_sec_def num_scale_def math_round_def)

lemma duration_sec_of_int:
  "duration_sec (JNum (Fin (of_int x)))
   = (if 0 \<le> x then JNum (Fin (of_int \<lfloor>(of_int x :: rat) / 10 + 1 / 2\<rfloor> / 100)) else JNull)"
  by (simp add: duration_sec_def num_ge_def num_less_def centi_to_sec_of_int not_less)

lemma delay_sec_of_int:
  "delay_sec (JNum (Fin (of_int x)))
   = (if 0 < x then JNum (Fin (of_int \<lfloor>(of_int x :: rat) / 10 + 1 / 2\<rfloor> / 100)) else JNull)"
  by (simp add: delay_sec_def num_less_def centi_to_sec_of_int)

lemma floor_half [simp]: "\<lfloor>(1 :: rat) / 2\<rfloor> = 0"
  by (simp add: floor_eq_iff)

lemma round_tenth: "\<lfloor>(of_int x :: rat) / 10 + 1 / 2\<rfloor> = (x + 5) div 10"
proof -
  have "(of_int x :: rat) / 10 + 1 / 2 = of_int (x + 5) / of_int 10"
    by (simp add: field_simps)
  then show ?thesis
    by (simp only: floor_divide_of_int_eq)
qed

lemma cue_durations:
  "get (cueUpdates listNum partNumber args) ''up_time'' = duration_sec (arg args 3)"
  "get (cueUpdates listNum partNumber args) ''down_time'' = duration_sec (arg args 5)"
  "get (cueUpdates listNum partNumber args) ''focus_time'' = duration_sec (arg args 7)"
  "get (cueUpdates listNum partNumber args) ''color_time'' = duration_sec (arg args 9)"
  "get (cueUpdates listNum partNumber args) ''beam_time'' = duration_sec (arg args 11)"
  by (simp_all add: cueUpdates_def get_def)

lemma cue_delays:
  "get (cueUpdates listNum partNumber args) ''up_delay'' = delay_sec (arg args 4)"
  "get (cueUpdates listNum partNumber args) ''down_delay'' = delay_sec (arg args 6)"
  "get (cueUpdates listNum partNumber args) ''focus_delay'' = delay_sec (arg args 8)"
  "get (cueUpdates listNum partNumber args) ''color_delay'' = delay_sec (arg args 10)"
  "get (cueUpdates listNum partNumber args) ''beam_delay'' = delay_sec (arg args 12)"
  by (simp_all add: cueUpdates_def get_def)

text \<open>
  C9, as the code has it. An integer \<open>x\<close> of centiseconds at one of the positions 3, 5,
  7, 9, 11 becomes \<open>round(x / 10) / 100\<close> seconds in the field of that duration when
  \<open>x \<ge> 0\<close> and null when \<open>x\<close> is negative. At one of the positions 4, 6, 8, 10, 12 it
  becomes \<open>round(x / 10) / 100\<close> in the field of that delay when \<open>x > 0\<close> and null when
  \<open>x \<le> 0\<close>: a delay of zero is stored as null. \<open>round\<close> takes a tie upwards, so
  \<open>round(x / 10)\<close> is \<open>(x + 5) div 10\<close>.
\<close>

theorem cue_times_in_seconds:
  fixes x :: int
  assumes "arg args i = JNum (Fin (of_int x))"
  shows "((i, f) \<in> set duration_slots \<longrightarrow>
            get (cueUpdates listNum partNumber args) f
            = (if 0 \<le> x then JNum (Fin (of_int \<lfloor>(of_int x :: rat) / 10 + 1 / 2\<rfloor> / 100))
               else JNull))
       \<and> ((i, f) \<in> set delay_slots \<longrightarrow>
            get (cueUpdates listNum partNumber args) f
            = (if 0 < x then JNum (Fin (of_int \<lfloor>(of_int x :: rat) / 10 + 1 / 2\<rfloor> / 100))
               else JNull))
       \<and> \<lfloor>(of_int x :: rat) / 10 + 1 / 2\<rfloor> = (x + 5) div 10"
proof (intro conjI impI)
  assume "(i, f) \<in> set duration_slots"
  then have "get (cueUpdates listNum partNumber args) f = duration_sec (arg args i)"
    unfolding duration_slots_def by (auto simp: cue_durations)
  then show "get (cueUpdates listNum partNumber args) f
             = (if 0 \<le> x then JNum (Fin (of_int \<lfloor>(of_int x :: rat) / 10 + 1 / 2\<rfloor> / 100))
                else JNull)"
    by (simp only: assms duration_sec_of_int)
next
  assume "(i, f) \<in> set delay_slots"
  then have "get (cueUpdates listNum partNumber args) f = delay_sec (arg args i)"
    unfolding delay_slots_def by (auto simp: cue_delays)
  then show "get (cueUpdates listNum partNumber args) f
             = (if 0 < x then JNum (Fin (of_int \<lfloor>(of_int x :: rat) / 10 + 1 / 2\<rfloor> / 100))
                else JNull)"
    by (simp only: assms delay_sec_of_int)
next
  show "\<lfloor>(of_int x :: rat) / 10 + 1 / 2\<rfloor> = (x + 5) div 10"
    by (rule round_tenth)
qed

theorem cue_times_of_a_response:
  "arg [JNum (Fin 0), JStr ''uid'', JStr ''Go'', JNum (Fin 505), JNum (Fin 26)] 3
     = JNum (Fin (of_int 505))
   \<and> get (cueUpdates (JStr ''1'') (JStr ''0'')
             [JNum (Fin 0), JStr ''uid'', JStr ''Go'', JNum (Fin 505), JNum (Fin 26)]) ''up_time''
     = JNum (Fin (51 / 100))"
proof -
  have a: "arg [JNum (Fin 0), JStr ''uid'', JStr ''Go'', JNum (Fin 505), JNum (Fin 26)] 3
           = JNum (Fin (of_int 505))"
    by (simp add: arg_def)
  have "(3, ''up_time'') \<in> set duration_slots"
    by (simp add: duration_slots_def)
  with cue_times_in_seconds [OF a, of "''up_time''" "JStr ''1''" "JStr ''0''"] a
  show ?thesis
    by (simp add: arg_def)
qed

text \<open>
  C9, as the specification has it, fails for a delay of zero: the claim gives
  \<open>round(0 / 10) / 100 = 0\<close> seconds, the code stores null.
\<close>

theorem zero_delay_is_null:
  "get (cueUpdates (JStr ''1'') (JStr ''0'')
          [JNum (Fin 0), JStr ''uid'', JStr ''Go'', JNum (Fin 505), JNum (Fin 0)]) ''up_delay''
     = JNull
   \<and> JNum (centi_to_sec (Fin 0)) = JNum (Fin 0)
   \<and> get (cueUpdates (JStr ''1'') (JStr ''0'')
          [JNum (Fin 0), JStr ''uid'', JStr ''Go'', JNum (Fin 505), JNum (Fin 0)]) ''up_delay''
     \<noteq> JNum (centi_to_sec (Fin 0))"
  by (simp add: cue_delays arg_def delay_sec_def num_less_def centi_to_sec_def
      num_scale_def math_round_def)

section \<open>What each part of the program leaves alone\<close>

lemma setTimeout_fields [simp]:
  "isRecording (setTimeout now cb d st) = isRecording st"
  "mainPlaybackList (setTimeout now cb d st) = mainPlaybackList st"
  "showStartTime (setTimeout now cb d st) = showStartTime st"
  "lastCueTime (setTimeout now cb d st) = lastCueTime st"
  "lastCueNumber (setTimeout now cb d st) = lastCueNumber st"
  "cueTimings (setTimeout now cb d st) = cueTimings st"
  "bulkRefreshInProgress (setTimeout now cb d st) = bulkRefreshInProgress st"
  "bulkRefreshCueList (setTimeout now cb d st) = bulkRefreshCueList st"
  "bulkRefreshExpectedCount (setTimeout now cb d st) = bulkRefreshExpectedCount st"
  "bulkRefreshReceivedIndices (setTimeout now cb d st) = bulkRefreshReceivedIndices st"
  "bulkRefreshReceivedCues (setTimeout now cb d st) = bulkRefreshReceivedCues st"
  "currentPollRequest (setTimeout now cb d st) = currentPollRequest st"
  "activePollingInProgress (setTimeout now cb d st) = activePollingInProgress st"
  by (simp_all add: setTimeout_def)

lemma updateOrCreateCue_fields [simp]:
  "cues (updateOrCreateCue num upd st) = upsertCue num upd (cues st)"
  "isRecording (updateOrCreateCue num upd st) = isRecording st"
  "mainPlaybackList (updateOrCreateCue num upd st) = mainPlaybackList st"
  "showStartTime (updateOrCreateCue num upd st) = showStartTime st"
  "lastCueTime (updateOrCreateCue num upd st) = lastCueTime st"
  "lastCueNumber (updateOrCreateCue num upd st) = lastCueNumber st"
  "cueTimings (updateOrCreateCue num upd st) = cueTimings st"
  "bulkRefreshInProgress (updateOrCreateCue num upd st) = bulkRefreshInProgress st"
  "bulkRefreshCueList (updateOrCreateCue num upd st) = bulkRefreshCueList st"
  "bulkRefreshExpectedCount (updateOrCreateCue num upd st) = bulkRefreshExpectedCount st"
  "bulkRefreshReceivedIndices (updateOrCreateCue num upd st) = bulkRefreshReceivedIndices st"
  "currentPollRequest (updateOrCreateCue num upd st) = currentPollRequest st"
  "activePollingInProgress (updateOrCreateCue num upd st) = activePollingInProgress st"
  by (simp_all add: updateOrCreateCue_def Let_def)

lemma requestAllCues_fields [simp]:
  "isRecording (requestAllCues now l st) = isRecording st"
  "mainPlaybackList (requestAllCues now l st) = mainPlaybackList st"
  "showStartTime (requestAllCues now l st) = showStartTime st"
  "lastCueTime (requestAllCues now l st) = lastCueTime st"
  "lastCueNumber (requestAllCues now l st) = lastCueNumber st"
  "cueTimings (requestAllCues now l st) = cueTimings st"
  by (simp_all add: requestAllCues_def)

lemma checkBulkRefreshComplete_fields [simp]:
  "isRecording (checkBulkRefreshComplete now st) = isRecording st"
  "mainPlaybackList (checkBulkRefreshComplete now st) = mainPlaybackList st"
  "showStartTime (checkBulkRefreshComplete now st) = showStartTime st"
  "lastCueTime (checkBulkRefreshComplete now st) = lastCueTime st"
  "lastCueNumber (checkBulkRefreshComplete now st) = lastCueNumber st"
  "cueTimings (checkBulkRefreshComplete now st) = cueTimings st"
  by (simp_all add: checkBulkRefreshComplete_def Let_def split: list.splits)

lemma handleCueCountResponse_fields [simp]:
  "isRecording (handleCueCountResponse now l cnt st) = isRecording st"
  "mainPlaybackList (handleCueCountResponse now l cnt st) = mainPlaybackList st"
  "showStartTime (handleCueCountResponse now l cnt st) = showStartTime st"
  "lastCueTime (handleCueCountResponse now l cnt st) = lastCueTime st"
  "lastCueNumber (handleCueCountResponse now l cnt st) = lastCueNumber st"
  "cueTimings (handleCueCountResponse now l cnt st) = cueTimings st"
  by (simp_all add: handleCueCountResponse_def Let_def)

lemma handleCueIndexResponse_fields [simp]:
  "cues (handleCueIndexResponse now l idx st) = cues st"
  "isRecording (handleCueIndexResponse now l idx st) = isRecording st"
  "mainPlaybackList (handleCueIndexResponse now l idx st) = mainPlaybackList st"
  "showStartTime (handleCueIndexResponse now l idx st) = showStartTime st"
  "lastCueTime (handleCueIndexResponse now l idx st) = lastCueTime st"
  "lastCueNumber (handleCueIndexResponse now l idx st) = lastCueNumber st"
  "cueTimings (handleCueIndexResponse now l idx st) = cueTimings st"
  "bulkRefreshInProgress (handleCueIndexResponse now l idx st) = bulkRefreshInProgress st"
  "bulkRefreshCueList (handleCueIndexResponse now l idx st) = bulkRefreshCueList st"
  "bulkRefreshExpectedCount (handleCueIndexResponse now l idx st) = bulkRefreshExpectedCount st"
  "bulkRefreshReceivedCues (handleCueIndexResponse now l idx st) = bulkRefreshReceivedCues st"
  "currentPollRequest (handleCueIndexResponse now l idx st) = currentPollRequest st"
  "activePollingInProgress (handleCueIndexResponse now l idx st) = activePollingInProgress st"
  by (simp_all add: handleCueIndexResponse_def Let_def)

lemma countFallback_fields [simp]:
  "cues (countFallback now st) = cues st"
  "isRecording (countFallback now st) = isRecording st"
  "mainPlaybackList (countFallback now st) = mainPlaybackList st"
  "showStartTime (countFallback now st) = showStartTime st"
  "lastCueTime (countFallback now st) = lastCueTime st"
  "lastCueNumber (countFallback now st) = lastCueNumber st"
  "cueTimings (countFallback now st) = cueTimings st"
  by (simp_all add: countFallback_def)

lemma countFinal_fields [simp]:
  "cues (countFinal st) = cues st"
  "isRecording (countFinal st) = isRecording st"
  "mainPlaybackList (countFinal st) = mainPlaybackList st"
  "showStartTime (countFinal st) = showStartTime st"
  "lastCueTime (countFinal st) = lastCueTime st"
  "lastCueNumber (countFinal st) = lastCueNumber st"
  "cueTimings (countFinal st) = cueTimings st"
  by (simp_all add: countFinal_def)

lemma playbackBlock_fields [simp]:
  "cues (playbackBlock now type lst cue st) = cues st"
  "isRecording (playbackBlock now type lst cue st) = isRecording st"
  "mainPlaybackList (playbackBlock now type lst cue st) = mainPlaybackList st"
  "showStartTime (playbackBlock now type lst cue st) = showStartTime st"
  "lastCueTime (playbackBlock now type lst cue st) = lastCueTime st"
  "lastCueNumber (playbackBlock now type lst cue st) = lastCueNumber st"
  "cueTimings (playbackBlock now type lst cue st) = cueTimings st"
  "bulkRefreshInProgress (playbackBlock now type lst cue st) = bulkRefreshInProgress st"
  "bulkRefreshCueList (playbackBlock now type lst cue st) = bulkRefreshCueList st"
  "bulkRefreshExpectedCount (playbackBlock now type lst cue st) = bulkRefreshExpectedCount st"
  "bulkRefreshReceivedIndices (playbackBlock now type lst cue st) = bulkRefreshReceivedIndices st"
  "bulkRefreshReceivedCues (playbackBlock now type lst cue st) = bulkRefreshReceivedCues st"
  by (simp_all add: playbackBlock_def split: option.splits)

lemma timingBlock_fields [simp]:
  "cues (timingBlock now type lst cue lbl st) = cues st"
  "isRecording (timingBlock now type lst cue lbl st) = isRecording st"
  "mainPlaybackList (timingBlock now type lst cue lbl st) = mainPlaybackList st"
  "bulkRefreshInProgress (timingBlock now type lst cue lbl st) = bulkRefreshInProgress st"
  "bulkRefreshCueList (timingBlock now type lst cue lbl st) = bulkRefreshCueList st"
  "bulkRefreshExpectedCount (timingBlock now type lst cue lbl st) = bulkRefreshExpectedCount st"
  "bulkRefreshReceivedIndices (timingBlock now type lst cue lbl st) = bulkRefreshReceivedIndices st"
  "bulkRefreshReceivedCues (timingBlock now type lst cue lbl st) = bulkRefreshReceivedCues st"
  by (simp_all add: timingBlock_def recordTiming_def Let_def)

lemma setActive_cues:
  "cues (setActiveCueByListAndNumber now lst cueNum type st) =
     (case List.find (\<lambda>c. js_String (get c ''cue_number'') = cueNum \<and> cueListOf c = lst)
             (clearLastSeen type lst (cues st)) of
        Some c \<Rightarrow>
          update_first (\<lambda>c. js_String (get c ''cue_number'') = cueNum \<and> cueListOf c = lst)
            (\<lambda>c. put c ''last_seen'' (JStr type)) (clearLastSeen type lst (cues st))
      | None \<Rightarrow>
          upsertCue cueNum [(''cue_list'', JStr lst), (''last_seen'', JStr type)]
            (clearLastSeen type lst (cues st)))"
  by (simp add: setActiveCueByListAndNumber_def Let_def split: option.splits)

lemma parseCueText_cues:
  "cues (parseCueText now cueText type ctx st) =
     (case cueText of
        JStr s \<Rightarrow>
          if is_reset_text (js_trim s) then
            (if known_list ctx then clearLastSeen type (the_list ctx) (cues st)
             else clearLastSeenAll type (cues st))
          else
            (case parseHeader (js_trim s) ctx of
               None \<Rightarrow> cues st
             | Some (lst, cue, remainder) \<Rightarrow>
                 (case parseRemainder remainder of (lbl, fadeTime, completion) \<Rightarrow>
                    upsertCue cue
                      ([(''cue_list'', JStr lst), (''label'', JStr lbl),
                        (''last_seen'', JStr type), (''completion'', JStr completion)]
                       @ (if fadeTime \<noteq> [] \<and> (completion = ''0%'' \<or> type = ''pending'')
                          then [(''fade_time'', JStr fadeTime)] else []))
                      (clearLastSeen type lst (cues st))))
      | _ \<Rightarrow> cues st)"
  by (simp add: parseCueText_def Let_def split: jsval.splits option.splits prod.splits)

section \<open>Empty and reset cue text\<close>

lemma cueListOf_put_last_seen [simp]: "cueListOf (put c ''last_seen'' v) = cueListOf c"
  by (simp add: cueListOf_def get_put)

lemma filter_clearLastSeen_others:
  "filter (\<lambda>c. cueListOf c \<noteq> lst) (clearLastSeen type lst cs)
   = filter (\<lambda>c. cueListOf c \<noteq> lst) cs"
  by (induction cs) (auto simp: clearLastSeen_def)

lemma clearLastSeen_one:
  "cueListOf
     (if get c ''last_seen'' = JStr type \<and> cueListOf c = lst then put c ''last_seen'' JNull
      else c) = lst
   \<longrightarrow> get (if get c ''last_seen'' = JStr type \<and> cueListOf c = lst
            then put c ''last_seen'' JNull else c) ''last_seen'' \<noteq> JStr type"
  by (cases "get c ''last_seen'' = JStr type \<and> cueListOf c = lst") (auto simp: get_put)

lemma clearLastSeen_cleared:
  "\<forall>c \<in> set (clearLastSeen type lst cs).
     cueListOf c = lst \<longrightarrow> get c ''last_seen'' \<noteq> JStr type"
  unfolding clearLastSeen_def set_map ball_simps
  by (intro ballI clearLastSeen_one)

lemma clearLastSeenAll_one:
  "get (if get c ''last_seen'' = JStr type then put c ''last_seen'' JNull else c) ''last_seen''
   \<noteq> JStr type"
  by (cases "get c ''last_seen'' = JStr type") (auto simp: get_put)

lemma clearLastSeenAll_cleared:
  "\<forall>c \<in> set (clearLastSeenAll type cs). get c ''last_seen'' \<noteq> JStr type"
  unfolding clearLastSeenAll_def set_map ball_simps
  by (intro ballI clearLastSeenAll_one)

lemma cueListOf_seen_cue [simp]:
  "cueListOf (seen_cue lst num type) = (if lst = [] then ''1'' else lst)"
  by (simp add: cueListOf_def seen_cue_def js_or_def truthy_def)

lemma last_seen_seen_cue [simp]: "get (seen_cue lst num type) ''last_seen'' = JStr type"
  by (simp add: seen_cue_def)

text \<open>
  C4, as the code has it. Let the trimmed text of the active (or pending) cue be empty
  or begin with \<open>0.0 \<close> or \<open>0/0\<close>. When the contextual list is known, no cue of that list
  is active (or pending) afterwards and the cues of every other list are as they were.
  When no contextual list is known, no cue of any list is active (or pending)
  afterwards: the state is cleared on all lists.
\<close>

theorem reset_text_clears_the_known_list_or_all:
  assumes "is_reset_text (js_trim s)"
  shows "(known_list ctx \<longrightarrow>
            filter (\<lambda>c. cueListOf c \<noteq> the_list ctx)
              (cues (parseCueText now (JStr s) type ctx st))
            = filter (\<lambda>c. cueListOf c \<noteq> the_list ctx) (cues st)
            \<and> (\<forall>c \<in> set (cues (parseCueText now (JStr s) type ctx st)).
                  cueListOf c = the_list ctx \<longrightarrow> get c ''last_seen'' \<noteq> JStr type))
       \<and> (\<not> known_list ctx \<longrightarrow>
            cues (parseCueText now (JStr s) type ctx st) = clearLastSeenAll type (cues st)
            \<and> (\<forall>c \<in> set (cues (parseCueText now (JStr s) type ctx st)).
                  get c ''last_seen'' \<noteq> JStr type))"
proof (cases "known_list ctx")
  case True
  have e: "cues (parseCueText now (JStr s) type ctx st)
             = clearLastSeen type (the_list ctx) (cues st)"
    by (simp only: parseCueText_cues jsval.case assms True if_True)
  have f: "filter (\<lambda>c. cueListOf c \<noteq> the_list ctx)
             (cues (parseCueText now (JStr s) type ctx st))
           = filter (\<lambda>c. cueListOf c \<noteq> the_list ctx) (cues st)"
    unfolding e by (rule filter_clearLastSeen_others)
  have g: "\<forall>c \<in> set (cues (parseCueText now (JStr s) type ctx st)).
             cueListOf c = the_list ctx \<longrightarrow> get c ''last_seen'' \<noteq> JStr type"
    unfolding e by (rule clearLastSeen_cleared)
  show ?thesis
  proof (intro conjI impI)
    show "filter (\<lambda>c. cueListOf c \<noteq> the_list ctx)
            (cues (parseCueText now (JStr s) type ctx st))
          = filter (\<lambda>c. cueListOf c \<noteq> the_list ctx) (cues st)"
      by (rule f)
    show "\<forall>c \<in> set (cues (parseCueText now (JStr s) type ctx st)).
            cueListOf c = the_list ctx \<longrightarrow> get c ''last_seen'' \<noteq> JStr type"
      by (rule g)
  next
    assume "\<not> known_list ctx"
    with True show "cues (parseCueText now (JStr s) type ctx st)
                    = clearLastSeenAll type (cues st)"
      by contradiction
  next
    assume "\<not> known_list ctx"
    with True show "\<forall>c \<in> set (cues (parseCueText now (JStr s) type ctx st)).
                      get c ''last_seen'' \<noteq> JStr type"
      by contradiction
  qed
next
  case False
  have e: "cues (parseCueText now (JStr s) type ctx st) = clearLastSeenAll type (cues st)"
    by (simp only: parseCueText_cues jsval.case assms False if_True if_False)
  have g: "\<forall>c \<in> set (cues (parseCueText now (JStr s) type ctx st)).
             get c ''last_seen'' \<noteq> JStr type"
    unfolding e by (rule clearLastSeenAll_cleared)
  show ?thesis
  proof (intro conjI impI)
    assume "known_list ctx"
    with False show "filter (\<lambda>c. cueListOf c \<noteq> the_list ctx)
            (cues (parseCueText now (JStr s) type ctx st))
          = filter (\<lambda>c. cueListOf c \<noteq> the_list ctx) (cues st)"
      by contradiction
  next
    assume "known_list ctx"
    with False show "\<forall>c \<in> set (cues (parseCueText now (JStr s) type ctx st)).
            cueListOf c = the_list ctx \<longrightarrow> get c ''last_seen'' \<noteq> JStr type"
      by contradiction
  next
    show "cues (parseCueText now (JStr s) type ctx st) = clearLastSeenAll type (cues st)"
      by (rule e)
    show "\<forall>c \<in> set (cues (parseCueText now (JStr s) type ctx st)).
            get c ''last_seen'' \<noteq> JStr type"
      by (rule g)
  qed
qed

theorem empty_text_on_list_one:
  "is_reset_text (js_trim [])
   \<and> known_list (Some ''1'')
   \<and> filter (\<lambda>c. cueListOf c \<noteq> ''1'')
        (cues (parseCueText 0 (JStr []) ''active'' (Some ''1'') two_lists_active))
     = [seen_cue ''2'' ''9'' ''active'']"
proof -
  have r: "is_reset_text (js_trim [])"
    by (simp add: is_reset_text_def js_trim_def)
  have k: "known_list (Some ''1'')"
    by (simp add: known_list_def)
  have c: "cues two_lists_active
           = [seen_cue ''1'' ''5'' ''active'', seen_cue ''2'' ''9'' ''active'']"
    by (simp add: two_lists_active_def initial_state_def)
  show ?thesis
    using r k reset_text_clears_the_known_list_or_all
            [OF r, of "Some ''1''" 0 "''active''" two_lists_active]
    by (simp add: c the_list_def)
qed

text \<open>
  C4, as the specification has it, fails when no contextual list is known: an empty
  active text then clears the active cue of list 1 and of list 2 alike.
\<close>

theorem empty_text_without_list_wipes_all_lists:
  "map (\<lambda>c. (cueListOf c, get c ''last_seen'')) (cues two_lists_active)
     = [(''1'', JStr ''active''), (''2'', JStr ''active'')]
   \<and> map (\<lambda>c. (cueListOf c, get c ''last_seen''))
        (cues (parseCueText 0 (JStr []) ''active'' None two_lists_active))
     = [(''1'', JNull), (''2'', JNull)]"
  by (simp add: parseCueText_cues is_reset_text_def js_trim_def known_list_def
      two_lists_active_def initial_state_def clearLastSeenAll_def get_put)

section \<open>Recording\<close>

lemma map_cueNumber_update_first:
  "map cueNumber (update_first p (\<lambda>t. t\<lparr>timestamp := a, timeFromPrevious := b\<rparr>) ts)
   = map cueNumber ts"
  by (induction ts) simp_all

lemma length_update_first [simp]: "length (update_first p f xs) = length xs"
  by (induction xs) simp_all

lemma find_update_first:
  "List.find p xs = Some x \<Longrightarrow> p (f x) \<Longrightarrow> List.find p (update_first p f xs) = Some (f x)"
  by (induction xs) (auto split: if_splits)

lemma find_append_new:
  "List.find p xs = None \<Longrightarrow> p y \<Longrightarrow> List.find p (xs @ [y]) = Some y"
  by (induction xs) (auto split: if_splits)

lemma update_first_others:
  "i < length xs \<Longrightarrow> \<not> p (xs ! i) \<Longrightarrow> update_first p f xs ! i = xs ! i"
proof (induction xs arbitrary: i)
  case Nil
  then show ?case by simp
next
  case (Cons x xs)
  then show ?case by (cases i) auto
qed

lemma start_time_fold:
  "(case showStartTime st of None \<Rightarrow> now | Some s \<Rightarrow> if s = 0 then now else s)
   = start_time now st"
  by (simp add: start_time_def)

lemma recordTiming_start [simp]:
  "showStartTime (recordTiming now lst cue lbl st) = Some (start_time now st)"
  by (simp add: recordTiming_def start_time_def Let_def)

lemma recordTiming_same_cue:
  "lastCueNumber st = Some cue \<Longrightarrow> cueTimings (recordTiming now lst cue lbl st) = cueTimings st"
  by (simp add: recordTiming_def Let_def)

lemma recordTiming_entry:
  assumes "lastCueNumber st \<noteq> Some cue"
  shows "\<exists>t. List.find (\<lambda>t. cueNumber t = cue) (cueTimings (recordTiming now lst cue lbl st))
              = Some t
           \<and> timestamp t = of_int (now - start_time now st) / 1000
           \<and> timeFromPrevious t
             = (case lastCueTime st of
                  None \<Rightarrow> 0
                | Some l \<Rightarrow> if 0 < l then of_int (now - start_time now st) / 1000 - l else 0)"
proof (cases "List.find (\<lambda>t. cueNumber t = cue) (cueTimings st)")
  case None
  then show ?thesis
    using assms
    by (simp add: recordTiming_def start_time_fold Let_def find_append_new split: option.splits)
next
  case (Some e)
  then have "cueNumber e = cue"
    by (auto simp: find_Some_iff)
  with Some show ?thesis
    using assms
    by (simp add: recordTiming_def start_time_fold Let_def find_update_first split: option.splits)
qed

lemma recordTiming_in_place:
  assumes "lastCueNumber st \<noteq> Some cue" and "cue \<in> cueNumber ` set (cueTimings st)"
  shows "map cueNumber (cueTimings (recordTiming now lst cue lbl st))
         = map cueNumber (cueTimings st)
       \<and> (\<forall>i < length (cueTimings st).
            cueNumber (cueTimings st ! i) \<noteq> cue
            \<longrightarrow> cueTimings (recordTiming now lst cue lbl st) ! i = cueTimings st ! i)"
proof -
  from assms(2) obtain e where "List.find (\<lambda>t. cueNumber t = cue) (cueTimings st) = Some e"
    by (cases "List.find (\<lambda>t. cueNumber t = cue) (cueTimings st)")
       (auto simp: find_None_iff)
  then have "cueTimings (recordTiming now lst cue lbl st)
             = update_first (\<lambda>t. cueNumber t = cue)
                 (\<lambda>t. t\<lparr>timestamp := of_int (now - start_time now st) / 1000,
                        timeFromPrevious :=
                          (case lastCueTime st of
                             None \<Rightarrow> 0
                           | Some l \<Rightarrow>
                               if 0 < l then of_int (now - start_time now st) / 1000 - l
                               else 0)\<rparr>)
                 (cueTimings st)"
    using assms(1) by (simp add: recordTiming_def start_time_fold Let_def split: option.splits)
  then show ?thesis
    by (simp add: map_cueNumber_update_first update_first_others)
qed

lemma recordTiming_distinct:
  assumes "distinct (map cueNumber (cueTimings st))"
  shows "distinct (map cueNumber (cueTimings (recordTiming now lst cue lbl st)))"
proof (cases "List.find (\<lambda>t. cueNumber t = cue) (cueTimings st)")
  case None
  then have "cue \<notin> cueNumber ` set (cueTimings st)"
    by (auto simp: find_None_iff)
  with None assms show ?thesis
    by (simp add: recordTiming_def Let_def)
next
  case (Some e)
  with assms show ?thesis
    by (simp add: recordTiming_def Let_def map_cueNumber_update_first)
qed

lemma timingBlock_distinct:
  "distinct (map cueNumber (cueTimings st))
   \<Longrightarrow> distinct (map cueNumber (cueTimings (timingBlock now type lst cue lbl st)))"
  by (simp add: timingBlock_def recordTiming_distinct)

lemma recordTiming_isRecording [simp]:
  "isRecording (recordTiming now lst cue lbl st) = isRecording st"
  by (simp add: recordTiming_def Let_def)

lemma recordTiming_lastCueNumber [simp]:
  "lastCueNumber (recordTiming now lst cue lbl st) = Some cue"
  by (simp add: recordTiming_def Let_def)

lemma recordTiming_lastCueTime:
  "lastCueTime (recordTiming now lst cue lbl st)
   = (if lastCueNumber st \<noteq> Some cue then Some (of_int (now - start_time now st) / 1000)
      else lastCueTime st)"
  by (simp add: recordTiming_def Let_def start_time_fold)

lemma recordTiming_cueTimings:
  "cueTimings (recordTiming now lst cue lbl st)
   = (if lastCueNumber st \<noteq> Some cue then
        (case List.find (\<lambda>t. cueNumber t = cue) (cueTimings st) of
           Some existing \<Rightarrow>
             update_first (\<lambda>t. cueNumber t = cue)
               (\<lambda>t. t\<lparr>timestamp := of_int (now - start_time now st) / 1000,
                      timeFromPrevious :=
                        (case lastCueTime st of
                           None \<Rightarrow> 0
                         | Some l \<Rightarrow>
                             if 0 < l then of_int (now - start_time now st) / 1000 - l
                             else 0)\<rparr>)
               (cueTimings st)
         | None \<Rightarrow>
             cueTimings st
             @ [\<lparr>cueNumber = cue, cueList = lst, label = lbl,
                 timestamp = of_int (now - start_time now st) / 1000,
                 timeFromPrevious =
                   (case lastCueTime st of
                      None \<Rightarrow> 0
                    | Some l \<Rightarrow>
                        if 0 < l then of_int (now - start_time now st) / 1000 - l
                        else 0)\<rparr>])
      else cueTimings st)"
  by (simp add: recordTiming_def Let_def start_time_fold split: option.splits)

lemma start_time_cong: "showStartTime a = showStartTime b \<Longrightarrow> start_time now a = start_time now b"
  by (simp add: start_time_def)

lemma recordTiming_showTimings_cong:
  assumes "showTimings a = showTimings b"
  shows "showTimings (recordTiming now lst cue lbl a)
         = showTimings (recordTiming now lst cue lbl b)"
proof -
  from assms have e: "isRecording a = isRecording b" "showStartTime a = showStartTime b"
    "lastCueTime a = lastCueTime b" "lastCueNumber a = lastCueNumber b"
    "cueTimings a = cueTimings b"
    by (simp_all add: showTimings_def)
  have s: "start_time now a = start_time now b"
    using e(2) by (rule start_time_cong)
  show ?thesis
    unfolding showTimings_def recordTiming_start recordTiming_isRecording
      recordTiming_lastCueNumber recordTiming_lastCueTime recordTiming_cueTimings e s
    by (rule refl)
qed

lemma timingBlock_showTimings_cong:
  assumes "showTimings a = showTimings b" and "mainPlaybackList a = mainPlaybackList b"
  shows "showTimings (timingBlock now type lst cue lbl a)
         = showTimings (timingBlock now type lst cue lbl b)"
proof -
  from assms(1) have r: "isRecording a = isRecording b"
    by (simp add: showTimings_def)
  show ?thesis
  proof (cases "type = ''active'' \<and> isRecording b \<and> lst = mainPlaybackList b")
    case True
    then have "timingBlock now type lst cue lbl a = recordTiming now lst cue lbl a"
      and "timingBlock now type lst cue lbl b = recordTiming now lst cue lbl b"
      by (simp_all add: timingBlock_def r assms(2))
    then show ?thesis
      by (simp only: recordTiming_showTimings_cong [OF assms(1)])
  next
    case False
    then have "timingBlock now type lst cue lbl a = a"
      and "timingBlock now type lst cue lbl b = b"
      by (auto simp: timingBlock_def r assms(2))
    then show ?thesis
      by (simp only: assms(1))
  qed
qed

lemma showTimings_playbackBlock [simp]:
  "showTimings (playbackBlock now type lst cue st) = showTimings st"
  by (simp add: showTimings_def)

lemma showTimings_updateOrCreateCue [simp]:
  "showTimings (updateOrCreateCue num upd st) = showTimings st"
  by (simp add: showTimings_def)

lemma showTimings_cues_update [simp]: "showTimings (st\<lparr>cues := cs\<rparr>) = showTimings st"
  by (simp add: showTimings_def)

lemma showTimings_cuesChanged_update [simp]:
  "showTimings (st\<lparr>cuesChanged := b\<rparr>) = showTimings st"
  by (simp add: showTimings_def)

lemma showTimings_poll_update [simp]:
  "showTimings (st\<lparr>activePollingInProgress := b, currentPollRequest := r\<rparr>) = showTimings st"
  by (simp add: showTimings_def)

lemma showTimings_poll_update3 [simp]:
  "showTimings (st\<lparr>cuesChanged := c, activePollingInProgress := b, currentPollRequest := r\<rparr>)
   = showTimings st"
  by (simp add: showTimings_def)

lemma mainPlaybackList_cues_update [simp]:
  "mainPlaybackList (st\<lparr>cues := cs\<rparr>) = mainPlaybackList st"
  by simp

lemma setActive_showTimings:
  "\<exists>lbl. showTimings (setActiveCueByListAndNumber now lst cueNum type st)
         = showTimings (timingBlock now type lst cueNum lbl st)"
proof (cases "List.find (\<lambda>c. js_String (get c ''cue_number'') = cueNum \<and> cueListOf c = lst)
                (clearLastSeen type lst (cues st))")
  case None
  then have "showTimings (setActiveCueByListAndNumber now lst cueNum type st)
             = showTimings (timingBlock now type lst cueNum (JStr [])
                 (updateOrCreateCue cueNum [(''cue_list'', JStr lst), (''last_seen'', JStr type)]
                    (st\<lparr>cues := clearLastSeen type lst (cues st)\<rparr>)))"
    by (simp add: setActiveCueByListAndNumber_def Let_def)
  also have "\<dots> = showTimings (timingBlock now type lst cueNum (JStr []) st)"
    by (rule timingBlock_showTimings_cong) simp_all
  finally show ?thesis
    by blast
next
  case (Some c)
  then have "showTimings (setActiveCueByListAndNumber now lst cueNum type st)
             = showTimings (timingBlock now type lst cueNum (js_or (get c ''label'') (JStr []))
                 (st\<lparr>cues := update_first
                      (\<lambda>c. js_String (get c ''cue_number'') = cueNum \<and> cueListOf c = lst)
                      (\<lambda>c. put c ''last_seen'' (JStr type))
                      (clearLastSeen type lst (cues st))\<rparr>))"
    by (simp add: setActiveCueByListAndNumber_def Let_def)
  also have "\<dots> = showTimings (timingBlock now type lst cueNum
                                (js_or (get c ''label'') (JStr [])) st)"
    by (rule timingBlock_showTimings_cong) simp_all
  finally show ?thesis
    by blast
qed

lemma parseCueText_showTimings:
  "showTimings (parseCueText now cueText type ctx st) =
     (case cueText of
        JStr s \<Rightarrow>
          if is_reset_text (js_trim s) then showTimings st
          else
            (case parseHeader (js_trim s) ctx of
               None \<Rightarrow> showTimings st
             | Some (lst, cue, remainder) \<Rightarrow>
                 showTimings
                   (timingBlock now type lst cue (JStr (fst (parseRemainder remainder))) st))
      | _ \<Rightarrow> showTimings st)"
  by (simp add: parseCueText_def Let_def split: jsval.splits option.splits prod.splits)

lemma cuePerListMessage_showTimings:
  "\<exists>lbl. showTimings (cuePerListMessage now type lst cueNum st)
         = showTimings (timingBlock now type lst cueNum lbl st)"
  using setActive_showTimings [of now lst cueNum type st]
  by (simp add: cuePerListMessage_def)

lemma cueTextMessage_showTimings:
  "showTimings (cueTextMessage now type addrList args st)
   = showTimings (parseCueText now (js_or (arg args 0) (JStr [])) type
                    (contextList type addrList st) st)"
  by (simp add: cueTextMessage_def Let_def split: option.splits)

lemma active_cue_step:
  assumes "active_cue_of ev st = Some (lst, cue)"
  shows "\<exists>lbl. showTimings (step now ev st)
               = showTimings (timingBlock now ''active'' lst cue lbl st)"
proof (cases ev)
  case (OscCuePerList type l c)
  with assms have "type = ''active''" "l = lst" "c = cue"
    by (auto simp: active_cue_of_def split: if_splits)
  with OscCuePerList show ?thesis
    using cuePerListMessage_showTimings [of now "''active''" lst cue st]
    by (simp add: step_def)
next
  case (OscCueText type addrList args)
  with assms obtain s remainder where
    t: "type = ''active''" and
    s: "js_or (arg args 0) (JStr []) = JStr s" and
    r: "\<not> is_reset_text (js_trim s)" and
    h: "parseHeader (js_trim s) (contextList type addrList st) = Some (lst, cue, remainder)"
    by (auto simp: active_cue_of_def split: if_splits jsval.splits)
  then have "showTimings (step now ev st)
             = showTimings (timingBlock now ''active'' lst cue
                              (JStr (fst (parseRemainder remainder))) st)"
    using OscCueText
    by (simp add: step_def cueTextMessage_showTimings parseCueText_showTimings)
  then show ?thesis
    by blast
qed (use assms in \<open>simp_all add: active_cue_of_def\<close>)

section \<open>Start of a recording\<close>

lemma showTimings_fields:
  "showTimings a = showTimings b \<Longrightarrow> showStartTime a = showStartTime b"
  "showTimings a = showTimings b \<Longrightarrow> cueTimings a = cueTimings b"
  "showTimings a = showTimings b \<Longrightarrow> lastCueNumber a = lastCueNumber b"
  "showTimings a = showTimings b \<Longrightarrow> lastCueTime a = lastCueTime b"
  "showTimings a = showTimings b \<Longrightarrow> isRecording a = isRecording b"
  by (simp_all add: showTimings_def)

lemma main_active_cue_step:
  assumes "active_cue_of ev st = Some (mainPlaybackList st, cue)" and "isRecording st"
  shows "\<exists>lbl. showTimings (step now ev st)
               = showTimings (recordTiming now (mainPlaybackList st) cue lbl st)"
proof -
  from active_cue_step [OF assms(1)] obtain lbl where
    "showTimings (step now ev st)
     = showTimings (timingBlock now ''active'' (mainPlaybackList st) cue lbl st)"
    by blast
  moreover have "timingBlock now ''active'' (mainPlaybackList st) cue lbl st
                 = recordTiming now (mainPlaybackList st) cue lbl st"
    using assms(2) by (simp add: timingBlock_def)
  ultimately show ?thesis
    by auto
qed

text \<open>
  C7, as the code has it. \<open>showStartTime\<close> is set to the current time when the recording
  is started (\<open>POST /api/show-timings/start\<close>). An active cue of the main list that
  arrives while recording leaves a \<open>showStartTime\<close> that is set as it is, and sets it
  to the current time only when it is null or 0. The time stamp of the cue it records is
  the time since the \<open>showStartTime\<close> in force after the event, in seconds: the time
  since the recording was started when \<open>showStartTime\<close> was set, and zero when it was
  null or 0 before the event.
\<close>

theorem recording_counts_from_its_start:
  assumes "active_cue_of ev st = Some (mainPlaybackList st, cue)"
    and "isRecording st"
    and "lastCueNumber st \<noteq> Some cue"
  shows "showStartTime (postTimingsStart t0 st0) = Some t0
       \<and> showStartTime (step now ev st) = Some (start_time now st)
       \<and> (\<exists>t. List.find (\<lambda>t. cueNumber t = cue) (cueTimings (step now ev st)) = Some t
              \<and> timestamp t = of_int (now - start_time now st) / 1000)
       \<and> (showStartTime st = Some s \<and> s \<noteq> 0 \<longrightarrow> start_time now st = s)
       \<and> (showStartTime st = None \<or> showStartTime st = Some 0 \<longrightarrow> start_time now st = now)
       \<and> (showStartTime st = Some s \<and> s \<noteq> 0
          \<longrightarrow> (\<exists>t. List.find (\<lambda>t. cueNumber t = cue) (cueTimings (step now ev st)) = Some t
                   \<and> timestamp t = of_int (now - s) / 1000))
       \<and> (showStartTime st = None \<or> showStartTime st = Some 0
          \<longrightarrow> (\<exists>t. List.find (\<lambda>t. cueNumber t = cue) (cueTimings (step now ev st)) = Some t
                   \<and> timestamp t = 0))"
proof -
  from main_active_cue_step [OF assms(1,2)] obtain lbl where
    e: "showTimings (step now ev st)
        = showTimings (recordTiming now (mainPlaybackList st) cue lbl st)"
    by blast
  have 1: "showStartTime (step now ev st) = Some (start_time now st)"
    using showTimings_fields(1) [OF e] by simp
  have 2: "\<exists>t. List.find (\<lambda>t. cueNumber t = cue) (cueTimings (step now ev st)) = Some t
              \<and> timestamp t = of_int (now - start_time now st) / 1000"
    using recordTiming_entry [OF assms(3), of now "mainPlaybackList st" lbl]
    unfolding showTimings_fields(2) [OF e] by blast
  have 3: "showStartTime (postTimingsStart t0 st0) = Some t0"
    by (simp add: postTimingsStart_def)
  have 4: "showStartTime st = Some s \<and> s \<noteq> 0 \<longrightarrow> start_time now st = s"
    by (simp add: start_time_def)
  have 5: "showStartTime st = None \<or> showStartTime st = Some 0 \<longrightarrow> start_time now st = now"
    by (auto simp: start_time_def)
  have 6: "showStartTime st = Some s \<and> s \<noteq> 0
           \<longrightarrow> (\<exists>t. List.find (\<lambda>t. cueNumber t = cue) (cueTimings (step now ev st)) = Some t
                    \<and> timestamp t = of_int (now - s) / 1000)"
    using 2 4 by auto
  have 7: "showStartTime st = None \<or> showStartTime st = Some 0
           \<longrightarrow> (\<exists>t. List.find (\<lambda>t. cueNumber t = cue) (cueTimings (step now ev st)) = Some t
                    \<and> timestamp t = 0)"
    using 2 5 by auto
  from 1 2 3 4 5 6 7 show ?thesis
    by blast
qed

lemma recording_state_fields:
  "isRecording recording_state" "mainPlaybackList recording_state = ''1''"
  "lastCueNumber recording_state = None" "showStartTime recording_state = Some 1000"
  by (simp_all add: recording_state_def postTimingsStart_def initial_state_def)

theorem first_cue_five_seconds_into_the_recording:
  "active_cue_of (OscCuePerList ''active'' ''1'' ''5'') recording_state
     = Some (mainPlaybackList recording_state, ''5'')
   \<and> isRecording recording_state
   \<and> lastCueNumber recording_state \<noteq> Some ''5''
   \<and> showStartTime (step 6000 (OscCuePerList ''active'' ''1'' ''5'') recording_state)
     = Some 1000
   \<and> (\<exists>t. List.find (\<lambda>t. cueNumber t = ''5'')
              (cueTimings (step 6000 (OscCuePerList ''active'' ''1'' ''5'') recording_state))
            = Some t
          \<and> timestamp t = 5)"
proof -
  have a: "active_cue_of (OscCuePerList ''active'' ''1'' ''5'') recording_state
           = Some (mainPlaybackList recording_state, ''5'')"
    by (simp add: active_cue_of_def recording_state_fields)
  have b: "isRecording recording_state"
    by (rule recording_state_fields)
  have c: "lastCueNumber recording_state \<noteq> Some ''5''"
    by (simp add: recording_state_fields)
  have s: "start_time 6000 recording_state = 1000"
    by (simp add: start_time_def recording_state_fields)
  show ?thesis
    using a b c recording_counts_from_its_start [OF a b c, of 0 initial_state 6000 1000]
    by (simp add: s)
qed

text \<open>
  C7, as the specification has it, fails: the first active cue of a recording started at
  time 1000 arrives at time 6000; \<open>showStartTime\<close> stays 1000 and the cue is recorded
  at 5 seconds, not at zero.
\<close>

theorem first_cue_does_not_restart_the_clock:
  "showStartTime
     (steps [(1000, PostTimingsStart), (6000, OscCuePerList ''active'' ''1'' ''5'')]
        initial_state)
     = Some 1000
   \<and> map (\<lambda>t. (cueNumber t, timestamp t))
        (cueTimings
           (steps [(1000, PostTimingsStart), (6000, OscCuePerList ''active'' ''1'' ''5'')]
              initial_state))
     = [(''5'', 5)]"
  by code_simp

section \<open>One timing entry for a cue\<close>

lemma one_entry_showTimings:
  "showTimings a = showTimings b \<Longrightarrow> one_entry_per_cue a = one_entry_per_cue b"
  by (simp add: one_entry_per_cue_def showTimings_def)

lemma timingBlock_one_entry:
  "one_entry_per_cue st \<Longrightarrow> one_entry_per_cue (timingBlock now type lst cue lbl st)"
  unfolding one_entry_per_cue_def by (rule timingBlock_distinct)

lemma setActive_one_entry:
  assumes "one_entry_per_cue st"
  shows "one_entry_per_cue (setActiveCueByListAndNumber now lst cueNum type st)"
proof -
  from setActive_showTimings [of now lst cueNum type st] obtain lbl where
    "showTimings (setActiveCueByListAndNumber now lst cueNum type st)
     = showTimings (timingBlock now type lst cueNum lbl st)"
    by blast
  from one_entry_showTimings [OF this] timingBlock_one_entry [OF assms] show ?thesis
    by simp
qed

lemma parseCueText_one_entry:
  assumes "one_entry_per_cue st"
  shows "one_entry_per_cue (parseCueText now cueText type ctx st)"
proof -
  have "showTimings (parseCueText now cueText type ctx st) = showTimings st
        \<or> (\<exists>lst cue lbl. showTimings (parseCueText now cueText type ctx st)
                           = showTimings (timingBlock now type lst cue lbl st))"
    unfolding parseCueText_showTimings
    by (auto split: jsval.splits option.splits)
  then show ?thesis
    using assms timingBlock_one_entry [OF assms] one_entry_showTimings
    by metis
qed

lemma one_entry_updates [simp]:
  "one_entry_per_cue (st\<lparr>cuesChanged := b\<rparr>) = one_entry_per_cue st"
  "one_entry_per_cue (st\<lparr>cues := cs\<rparr>) = one_entry_per_cue st"
  "one_entry_per_cue (st\<lparr>timers := ts\<rparr>) = one_entry_per_cue st"
  "one_entry_per_cue (st\<lparr>isRecording := r\<rparr>) = one_entry_per_cue st"
  "one_entry_per_cue (st\<lparr>bulkRefreshExpectedCount := e\<rparr>) = one_entry_per_cue st"
  "one_entry_per_cue (st\<lparr>activePollingInProgress := p, currentPollRequest := q\<rparr>)
   = one_entry_per_cue st"
  "one_entry_per_cue (st\<lparr>cuesChanged := b, activePollingInProgress := p,
                          currentPollRequest := q\<rparr>) = one_entry_per_cue st"
  by (simp_all add: one_entry_per_cue_def)

lemma one_entry_handlers [simp]:
  "one_entry_per_cue (setTimeout now cb d st) = one_entry_per_cue st"
  "one_entry_per_cue (updateOrCreateCue num upd st) = one_entry_per_cue st"
  "one_entry_per_cue (requestAllCues now l st) = one_entry_per_cue st"
  "one_entry_per_cue (checkBulkRefreshComplete now st) = one_entry_per_cue st"
  "one_entry_per_cue (handleCueCountResponse now l cnt st) = one_entry_per_cue st"
  "one_entry_per_cue (handleCueIndexResponse now l idx st) = one_entry_per_cue st"
  "one_entry_per_cue (countFallback now st) = one_entry_per_cue st"
  "one_entry_per_cue (countFinal st) = one_entry_per_cue st"
  by (simp_all add: one_entry_per_cue_def)

lemma cueDataResponse_one_entry:
  assumes "one_entry_per_cue st"
  shows "one_entry_per_cue (cueDataResponse now listNum cueNum partNumber pathCount args st)"
  using assms
  by (auto simp: cueDataResponse_def Let_def intro!: setActive_one_entry
      split: jsval.splits option.splits)

lemma getResponse_one_entry:
  assumes "one_entry_per_cue st"
  shows "one_entry_per_cue (getResponse now address args st)"
  using assms
  by (simp add: getResponse_def Let_def cueDataResponse_one_entry)

lemma cueTextMessage_one_entry:
  assumes "one_entry_per_cue st"
  shows "one_entry_per_cue (cueTextMessage now type addrList args st)"
  using parseCueText_one_entry [OF assms]
  by (simp add: cueTextMessage_def Let_def split: option.splits)

lemma fireTimer_one_entry:
  assumes "one_entry_per_cue st"
  shows "one_entry_per_cue (fireTimer now k st)"
  using assms
  by (simp add: fireTimer_def runCallback_def split: timer_cb.splits)

lemma step_one_entry:
  assumes "one_entry_per_cue st"
  shows "one_entry_per_cue (step now ev st)"
proof (cases ev)
  case (OscGet address args)
  then show ?thesis
    using assms by (simp add: step_def getResponse_one_entry)
next
  case (OscCueText type addrList args)
  then show ?thesis
    using assms by (simp add: step_def cueTextMessage_one_entry)
next
  case (OscCuePerList type lst cueNum)
  then show ?thesis
    using setActive_one_entry [OF assms] by (simp add: step_def cuePerListMessage_def)
next
  case (TimerFired k)
  then show ?thesis
    using assms by (simp add: step_def fireTimer_one_entry)
next
  case PostTimingsStart
  then show ?thesis
    by (simp add: step_def postTimingsStart_def one_entry_per_cue_def)
qed (use assms in \<open>simp_all add: step_def postNotes_def postColor_def postTags_def
        postTimingsStop_def\<close>)

lemma steps_one_entry:
  "one_entry_per_cue st \<Longrightarrow> one_entry_per_cue (steps evs st)"
proof (induction evs arbitrary: st)
  case Nil
  then show ?case by simp
next
  case (Cons e evs)
  then show ?case
    by (cases e) (simp add: step_one_entry)
qed

text \<open>
  C6. The recorded timings hold at most one entry for a cue number, whatever events
  follow a state in which they do, the start of a recording among them. When an active
  cue of the main list arrives while recording, is not the cue that fired last and has
  an entry already, the cue numbers of the entries stay as they are, in their order;
  the entry of the cue gets the time since the start as its time stamp and the time
  since the previous cue as \<open>timeFromPrevious\<close>; and every other entry stays as it is.
\<close>

theorem refiring_updates_the_entry_in_place:
  "(one_entry_per_cue st \<longrightarrow> one_entry_per_cue (steps evs st))
   \<and> one_entry_per_cue (steps evs (postTimingsStart t0 st0))
   \<and> (active_cue_of ev st = Some (mainPlaybackList st, cue) \<and> isRecording st
        \<and> lastCueNumber st \<noteq> Some cue \<and> cue \<in> cueNumber ` set (cueTimings st)
      \<longrightarrow> map cueNumber (cueTimings (step now ev st)) = map cueNumber (cueTimings st)
        \<and> (\<exists>t. List.find (\<lambda>t. cueNumber t = cue) (cueTimings (step now ev st)) = Some t
               \<and> timestamp t = of_int (now - start_time now st) / 1000
               \<and> timeFromPrevious t
                 = (case lastCueTime st of
                      None \<Rightarrow> 0
                    | Some l \<Rightarrow>
                        if 0 < l then of_int (now - start_time now st) / 1000 - l else 0))
        \<and> (\<forall>i < length (cueTimings st).
              cueNumber (cueTimings st ! i) \<noteq> cue
              \<longrightarrow> cueTimings (step now ev st) ! i = cueTimings st ! i))"
proof (intro conjI impI)
  assume "one_entry_per_cue st"
  then show "one_entry_per_cue (steps evs st)"
    by (rule steps_one_entry)
next
  have "one_entry_per_cue (postTimingsStart t0 st0)"
    by (simp add: postTimingsStart_def one_entry_per_cue_def)
  then show "one_entry_per_cue (steps evs (postTimingsStart t0 st0))"
    by (rule steps_one_entry)
next
  assume a: "active_cue_of ev st = Some (mainPlaybackList st, cue) \<and> isRecording st
             \<and> lastCueNumber st \<noteq> Some cue \<and> cue \<in> cueNumber ` set (cueTimings st)"
  from a main_active_cue_step [of ev st cue now] obtain lbl where
    e: "showTimings (step now ev st)
        = showTimings (recordTiming now (mainPlaybackList st) cue lbl st)"
    by blast
  note c = showTimings_fields(2) [OF e]
  from a have n: "lastCueNumber st \<noteq> Some cue" and m: "cue \<in> cueNumber ` set (cueTimings st)"
    by simp_all
  show "map cueNumber (cueTimings (step now ev st)) = map cueNumber (cueTimings st)"
    unfolding c using recordTiming_in_place [OF n m] by blast
  show "\<exists>t. List.find (\<lambda>t. cueNumber t = cue) (cueTimings (step now ev st)) = Some t
            \<and> timestamp t = of_int (now - start_time now st) / 1000
            \<and> timeFromPrevious t
              = (case lastCueTime st of
                   None \<Rightarrow> 0
                 | Some l \<Rightarrow>
                     if 0 < l then of_int (now - start_time now st) / 1000 - l else 0)"
    unfolding c by (rule recordTiming_entry [OF n])
  show "\<forall>i < length (cueTimings st).
          cueNumber (cueTimings st ! i) \<noteq> cue
          \<longrightarrow> cueTimings (step now ev st) ! i = cueTimings st ! i"
    unfolding c using recordTiming_in_place [OF n m] by blast
qed

lemma two_cues_recorded_fields:
  "isRecording two_cues_recorded"
  "mainPlaybackList two_cues_recorded = ''1''"
  "lastCueNumber two_cues_recorded = Some ''6''"
  "lastCueTime two_cues_recorded = Some 8"
  "showStartTime two_cues_recorded = Some 1000"
  "map cueNumber (cueTimings two_cues_recorded) = [''5'', ''6'']"
  "map timestamp (cueTimings two_cues_recorded) = [5, 8]"
  unfolding two_cues_recorded_def recording_state_def by code_simp+

theorem cue_five_fires_again:
  "one_entry_per_cue two_cues_recorded
   \<and> active_cue_of (OscCuePerList ''active'' ''1'' ''5'') two_cues_recorded
     = Some (mainPlaybackList two_cues_recorded, ''5'')
   \<and> isRecording two_cues_recorded
   \<and> lastCueNumber two_cues_recorded \<noteq> Some ''5''
   \<and> ''5'' \<in> cueNumber ` set (cueTimings two_cues_recorded)
   \<and> map cueNumber
        (cueTimings (step 12000 (OscCuePerList ''active'' ''1'' ''5'') two_cues_recorded))
     = [''5'', ''6'']
   \<and> (\<exists>t. List.find (\<lambda>t. cueNumber t = ''5'')
              (cueTimings (step 12000 (OscCuePerList ''active'' ''1'' ''5'') two_cues_recorded))
            = Some t
          \<and> timestamp t = 11 \<and> timeFromPrevious t = 3)"
proof -
  have d: "one_entry_per_cue two_cues_recorded"
    by (simp add: one_entry_per_cue_def two_cues_recorded_fields)
  have a: "active_cue_of (OscCuePerList ''active'' ''1'' ''5'') two_cues_recorded
           = Some (mainPlaybackList two_cues_recorded, ''5'')"
    by (simp add: active_cue_of_def two_cues_recorded_fields)
  have m: "''5'' \<in> cueNumber ` set (cueTimings two_cues_recorded)"
    using two_cues_recorded_fields(6) by (metis list.set_intros(1) set_map)
  have s: "start_time 12000 two_cues_recorded = 1000"
    by (simp add: start_time_def two_cues_recorded_fields)
  show ?thesis
    using d a m
      refiring_updates_the_entry_in_place
        [of two_cues_recorded "[]" 0 initial_state "OscCuePerList ''active'' ''1'' ''5''"
           "''5''" 12000]
    by (simp add: s two_cues_recorded_fields)
qed

section \<open>The cue store\<close>

lemma mset_insert_cue [simp]: "mset (insert_cue x xs) = add_mset x (mset xs)"
  by (induction xs) simp_all

lemma mset_sort_cues [simp]: "mset (sort_cues xs) = mset xs"
  by (induction xs) simp_all

lemma set_sort_cues [simp]: "set (sort_cues xs) = set xs"
  by (metis mset_sort_cues set_mset_mset)

lemma foldl_applyUpdate:
  "get (foldl (applyUpdate upd) c ks) k
   = (if k \<in> set ks \<and> (k \<in> set alwaysUpdateFields \<or> has_data (get upd k)) then get upd k
      else get c k)"
proof (induction ks arbitrary: c)
  case Nil
  then show ?case by simp
next
  case (Cons a ks)
  show ?case
    unfolding foldl_Cons Cons.IH
    by (auto simp: applyUpdate_def get_put)
qed

lemma get_absent: "k \<notin> fst ` set obj \<Longrightarrow> get obj k = JUndefined"
  by (induction obj) auto

lemma set_obj_keys [simp]: "set (obj_keys obj) = fst ` set obj"
  by (simp add: obj_keys_def)

lemma get_applyUpdates:
  "get (applyUpdates upd c) k
   = (if k \<in> fst ` set upd \<and> (k \<in> set alwaysUpdateFields \<or> has_data (get upd k))
      then get upd k else get c k)"
  by (simp add: applyUpdates_def foldl_applyUpdate)


lemma foldl_put:
  "get (foldl (\<lambda>c k. put c k (get upd k)) c ks) k
   = (if k \<in> set ks then get upd k else get c k)"
  by (induction ks arbitrary: c) (auto simp: get_put)

lemma get_newCue:
  "get (newCue num lst upd) k
   = (if k \<in> fst ` set upd then get upd k
      else get
        [(''cue_number'', JStr num), (''cue_list'', lst), (''label'', JStr []),
         (''fade_time'', JStr []), (''notes'', JStr []), (''color'', JStr ''#ffffff''),
         (''image_path'', JNull), (''tags'', JArr []), (''mark'', JStr []),
         (''block'', JStr []), (''assert'', JStr []), (''follow_time'', JNull),
         (''hang_time'', JNull), (''follow_hang'', JStr []), (''scene'', JStr []),
         (''part_count'', JNum (Fin 0)), (''part_number'', JNum (Fin 0)),
         (''focus_time'', JNull), (''color_time'', JNull), (''beam_time'', JNull),
         (''duration'', JNull)] k)"
  unfolding newCue_def foldl_put by simp

lemma upsertCue_found:
  "List.find (\<lambda>c. existingKey c = cueKey num upd) cs = Some c
   \<Longrightarrow> upsertCue num upd cs
       = update_first (\<lambda>c. existingKey c = cueKey num upd) (applyUpdates upd) cs"
  by (simp add: upsertCue_def)

lemma upsertCue_new:
  "List.find (\<lambda>c. existingKey c = cueKey num upd) cs = None
   \<Longrightarrow> mset (upsertCue num upd cs)
       = add_mset (newCue num (js_or (get upd ''cue_list'') (JStr ''1'')) upd) (mset cs)"
  by (simp add: upsertCue_def)

section \<open>Keys\<close>

lemma key_parts:
  assumes "CHR ''/'' \<notin> set l" and "CHR ''/'' \<notin> set n" and "a @ ''/'' @ b = l @ ''/'' @ n"
  shows "a = l \<and> b = n"
  using assms
proof (induction a arbitrary: l)
  case Nil
  then show ?case by (cases l) auto
next
  case (Cons x a)
  show ?case
  proof (cases l)
    case Nil
    with Cons.prems show ?thesis by auto
  next
    case (Cons y l')
    with Cons.prems Cons.IH [of l'] show ?thesis by auto
  qed
qed

lemma existingKey_parts:
  assumes "CHR ''/'' \<notin> set l" and "CHR ''/'' \<notin> set n" and "existingKey c = l @ ''/'' @ n"
  shows "cueListOf c = l \<and> js_String (get c ''cue_number'') = n"
proof (cases "js_gt0 (js_or (get c ''part_number'') (JNum (Fin 0)))")
  case True
  with assms(3) have
    "cueListOf c @ ''/'' @ (js_String (get c ''cue_number'') @ ''/''
        @ js_String (js_or (get c ''part_number'') (JNum (Fin 0))))
     = l @ ''/'' @ n"
    by (simp add: existingKey_def mkKey_def cueListOf_def)
  from key_parts [OF assms(1,2) this] assms(2) show ?thesis
    by auto
next
  case False
  with assms(3) have "cueListOf c @ ''/'' @ js_String (get c ''cue_number'') = l @ ''/'' @ n"
    by (simp add: existingKey_def mkKey_def cueListOf_def)
  from key_parts [OF assms(1,2) this] show ?thesis .
qed

lemma not_gt0_zero [simp]: "\<not> js_gt0 (JNum (Fin 0))"
  by (simp add: js_gt0_def to_number_def num_less_def)


lemma cueKey_list:
  "get upd ''cue_list'' = JStr l \<Longrightarrow> l \<noteq> [] \<Longrightarrow> get upd ''part_number'' = JUndefined
   \<Longrightarrow> cueKey num upd = l @ ''/'' @ num"
  by (simp add: cueKey_def mkKey_def js_or_def truthy_def)

section \<open>Annotating a cue\<close>








section \<open>User data under console data\<close>

lemma same_but_console_refl [simp]: "same_but_console c c"
  by (simp add: same_but_console_def)

lemma same_but_console_trans:
  "same_but_console a b \<Longrightarrow> same_but_console b c \<Longrightarrow> same_but_console a c"
  by (simp add: same_but_console_def)


lemma user_data_kept_refl [simp]: "user_data_kept cs cs"
  unfolding user_data_kept_def by (meson same_but_console_refl)


lemma user_data_kept_subset: "set cs' \<subseteq> set cs \<Longrightarrow> user_data_kept cs cs'"
  unfolding user_data_kept_def using same_but_console_refl by blast

lemma user_data_kept_filter [simp]: "user_data_kept cs (filter p cs)"
  by (rule user_data_kept_subset) simp



lemma user_data_kept_map:
  assumes "\<And>c. same_but_console c (f c)"
  shows "user_data_kept cs (map f cs)"
  unfolding user_data_kept_def using assms by auto

lemma same_but_console_put:
  "k \<in> set console_fields \<Longrightarrow> same_but_console c (put c k v)"
  by (auto simp: same_but_console_def get_put)

lemma user_data_kept_clearLastSeen [simp]:
  "user_data_kept cs (clearLastSeen type lst cs)"
  unfolding clearLastSeen_def
  by (rule user_data_kept_map) (simp add: same_but_console_put console_fields_def)

lemma user_data_kept_clearLastSeenAll [simp]:
  "user_data_kept cs (clearLastSeenAll type cs)"
  unfolding clearLastSeenAll_def
  by (rule user_data_kept_map) (simp add: same_but_console_put console_fields_def)

lemma same_but_console_applyUpdates:
  assumes "fst ` set upd \<subseteq> set console_fields"
  shows "same_but_console c (applyUpdates upd c)"
  unfolding same_but_console_def using assms by (auto simp: get_applyUpdates)



lemma cueUpdates_keys: "fst ` set (cueUpdates listNum partNumber args) \<subseteq> set console_fields"
  by (simp add: cueUpdates_def console_fields_def)














section \<open>One active and one pending cue for a list\<close>

lemma filter_map_le:
  assumes "\<And>c. q (g c) \<Longrightarrow> q c"
  shows "length (filter q (map g cs)) \<le> length (filter q cs)"
  using assms by (induction cs) auto

lemma filter_update_first_le:
  assumes "\<And>c. p c \<Longrightarrow> q (f c) \<Longrightarrow> q c"
  shows "length (filter q (update_first p f cs)) \<le> length (filter q cs)"
  using assms by (induction cs) auto

lemma filter_update_first_le_Suc:
  "length (filter q (update_first p f cs)) \<le> Suc (length (filter q cs))"
  by (induction cs) auto

lemma length_filter_mset: "length (filter q xs) = size (filter_mset q (mset xs))"
  by (metis mset_filter size_mset)

lemma filter_sort_cues: "length (filter q (sort_cues xs)) = length (filter q xs)"
  by (simp add: length_filter_mset)

lemma seen_count_clear_le:
  "seen_count type lst (clearLastSeen t l cs) \<le> seen_count type lst cs"
  unfolding seen_count_def clearLastSeen_def
  by (rule filter_map_le) (auto simp: get_put split: if_splits)

lemma seen_count_clearAll_le:
  "seen_count type lst (clearLastSeenAll t cs) \<le> seen_count type lst cs"
  unfolding seen_count_def clearLastSeenAll_def
  by (rule filter_map_le) (auto simp: get_put split: if_splits)

lemma seen_count_clear_zero: "seen_count t l (clearLastSeen t l cs) = 0"
proof -
  have "filter (\<lambda>c. get c ''last_seen'' = JStr t \<and> cueListOf c = l) (clearLastSeen t l cs) = []"
    unfolding filter_empty_conv using clearLastSeen_cleared [of t l cs] by blast
  then show ?thesis
    by (simp add: seen_count_def)
qed

text \<open>What marking a cue does to the number of marked cues of a list.\<close>

lemma seen_count_mark:
  assumes "\<And>c. p c \<Longrightarrow> get (f c) ''last_seen'' = JStr t \<and> cueListOf (f c) = l"
  shows "seen_count type lst (update_first p f cs)
         \<le> (if type = t \<and> lst = l then Suc (seen_count type lst cs) else seen_count type lst cs)"
proof (cases "type = t \<and> lst = l")
  case True
  then show ?thesis
    unfolding seen_count_def by (simp add: filter_update_first_le_Suc)
next
  case False
  have "length (filter (\<lambda>c. get c ''last_seen'' = JStr type \<and> cueListOf c = lst)
                  (update_first p f cs))
        \<le> length (filter (\<lambda>c. get c ''last_seen'' = JStr type \<and> cueListOf c = lst) cs)"
    by (rule filter_update_first_le) (use assms False in auto)
  with False show ?thesis
    unfolding seen_count_def by auto
qed

lemma seen_count_append:
  "seen_count type lst (sort_cues (cs @ [c]))
   = seen_count type lst cs
     + (if get c ''last_seen'' = JStr type \<and> cueListOf c = lst then 1 else 0)"
  by (simp add: seen_count_def filter_sort_cues)

lemma get_present: "get obj k = JStr s \<Longrightarrow> k \<in> fst ` set obj"
  using get_absent [of k obj] by auto

lemma marked_applyUpdates:
  assumes "get upd ''cue_list'' = JStr l" and "l \<noteq> []" and "get upd ''last_seen'' = JStr t"
  shows "get (applyUpdates upd c) ''last_seen'' = JStr t \<and> cueListOf (applyUpdates upd c) = l"
proof -
  have k: "''cue_list'' \<in> fst ` set upd" "''last_seen'' \<in> fst ` set upd"
    using assms by (auto intro: get_present)
  have "''last_seen'' \<in> set alwaysUpdateFields"
    by (simp add: alwaysUpdateFields_def)
  with k assms show ?thesis
    by (simp add: get_applyUpdates cueListOf_def has_data_def js_or_def truthy_def)
qed

lemma marked_newCue:
  assumes "get upd ''cue_list'' = JStr l" and "l \<noteq> []" and "get upd ''last_seen'' = JStr t"
  shows "get (newCue num lst upd) ''last_seen'' = JStr t \<and> cueListOf (newCue num lst upd) = l"
proof -
  have k: "''cue_list'' \<in> fst ` set upd" "''last_seen'' \<in> fst ` set upd"
    using assms by (auto intro: get_present)
  with assms show ?thesis
    by (simp add: get_newCue cueListOf_def js_or_def truthy_def)
qed

lemma seen_count_upsert:
  assumes "get upd ''cue_list'' = JStr l" and "l \<noteq> []" and "get upd ''last_seen'' = JStr t"
  shows "seen_count type lst (upsertCue num upd cs)
         \<le> (if type = t \<and> lst = l then Suc (seen_count type lst cs) else seen_count type lst cs)"
proof (cases "List.find (\<lambda>c. existingKey c = cueKey num upd) cs")
  case None
  then have "upsertCue num upd cs
             = sort_cues (cs @ [newCue num (js_or (get upd ''cue_list'') (JStr ''1'')) upd])"
    by (simp add: upsertCue_def)
  then show ?thesis
    using marked_newCue [OF assms]
    by (auto simp: seen_count_append)
next
  case (Some c)
  then have "upsertCue num upd cs
             = update_first (\<lambda>c. existingKey c = cueKey num upd) (applyUpdates upd) cs"
    by (rule upsertCue_found)
  then show ?thesis
    using seen_count_mark [of "\<lambda>c. existingKey c = cueKey num upd" "applyUpdates upd" t l]
      marked_applyUpdates [OF assms]
    by simp
qed

lemma one_per_list_iff: "one_per_list type cs \<longleftrightarrow> (\<forall>lst. seen_count type lst cs \<le> 1)"
proof
  assume a: "one_per_list type cs"
  show "\<forall>lst. seen_count type lst cs \<le> 1"
  proof
    fix lst
    show "seen_count type lst cs \<le> 1"
    proof (cases "\<exists>c \<in> set cs. cueListOf c = lst")
      case True
      with a show ?thesis
        by (auto simp: one_per_list_def list_all_iff)
    next
      case False
      then have "filter (\<lambda>c. get c ''last_seen'' = JStr type \<and> cueListOf c = lst) cs = []"
        unfolding filter_empty_conv by blast
      then show ?thesis
        by (simp add: seen_count_def)
    qed
  qed
next
  assume "\<forall>lst. seen_count type lst cs \<le> 1"
  then show "one_per_list type cs"
    by (simp add: one_per_list_def list_all_iff)
qed

lemma one_per_list_after_mark:
  assumes "one_per_list type cs"
    and "\<And>lst. seen_count type lst cs2
           \<le> (if type = t \<and> lst = l then Suc (seen_count type lst (clearLastSeen t l cs))
               else seen_count type lst (clearLastSeen t l cs))"
  shows "one_per_list type cs2"
  unfolding one_per_list_iff
proof
  fix lst
  show "seen_count type lst cs2 \<le> 1"
  proof (cases "type = t \<and> lst = l")
    case True
    with assms(2) [of lst] seen_count_clear_zero [of t l cs] show ?thesis
      by simp
  next
    case False
    with assms(2) [of lst] seen_count_clear_le [of type lst t l cs] assms(1) show ?thesis
      unfolding one_per_list_iff
      by (metis (full_types) le_trans)
  qed
qed

lemma setActive_one_per_list:
  assumes "one_per_list type (cues st)" and "lst \<noteq> []"
  shows "one_per_list type (cues (setActiveCueByListAndNumber now lst cueNum t st))"
proof (rule one_per_list_after_mark [OF assms(1), of _ t lst])
  fix l
  show "seen_count type l (cues (setActiveCueByListAndNumber now lst cueNum t st))
        \<le> (if type = t \<and> l = lst then Suc (seen_count type l (clearLastSeen t lst (cues st)))
            else seen_count type l (clearLastSeen t lst (cues st)))"
  proof (cases "List.find (\<lambda>c. js_String (get c ''cue_number'') = cueNum \<and> cueListOf c = lst)
                  (clearLastSeen t lst (cues st))")
    case None
    then show ?thesis
      unfolding setActive_cues
      using seen_count_upsert
              [of "[(''cue_list'', JStr lst), (''last_seen'', JStr t)]" lst t type l cueNum]
        assms(2)
      by simp
  next
    case (Some c)
    then show ?thesis
      unfolding setActive_cues
      using seen_count_mark
              [of "\<lambda>c. js_String (get c ''cue_number'') = cueNum \<and> cueListOf c = lst"
                 "\<lambda>c. put c ''last_seen'' (JStr t)" t lst type l]
      by (simp add: get_put)
  qed
qed

lemma clearLastSeen_one_per_list:
  "one_per_list type cs \<Longrightarrow> one_per_list type (clearLastSeen t l cs)"
  unfolding one_per_list_iff
  using seen_count_clear_le [of type _ t l cs] by (meson le_trans)

lemma clearLastSeenAll_one_per_list:
  "one_per_list type cs \<Longrightarrow> one_per_list type (clearLastSeenAll t cs)"
  unfolding one_per_list_iff
  using seen_count_clearAll_le [of type _ t cs] by (meson le_trans)

text \<open>The list and the cue number that a text gives are runs of digits and dots.\<close>

lemma is_digit_not_slash: "is_digit c \<Longrightarrow> c \<noteq> CHR ''/''"
  by (auto simp: is_digit_def)

lemma takeWhile_digit_no_slash: "CHR ''/'' \<notin> set (takeWhile is_digit s)"
  using is_digit_not_slash set_takeWhileD by fastforce

lemma match_cue_number_no_slash:
  "match_cue_number s = Some (cue, r) \<Longrightarrow> CHR ''/'' \<notin> set cue"
  using takeWhile_digit_no_slash
  by (auto simp: match_cue_number_def Let_def split: if_splits list.splits)

lemma match_list_cue_parts:
  assumes "match_list_cue s = Some (l, cue, r)"
  shows "l \<noteq> [] \<and> CHR ''/'' \<notin> set l \<and> CHR ''/'' \<notin> set cue"
  using assms takeWhile_digit_no_slash [of s] match_cue_number_no_slash
  by (auto simp: match_list_cue_def Let_def split: if_splits list.splits option.splits)

lemma match_cue_only_no_slash:
  "match_cue_only s = Some (cue, r) \<Longrightarrow> CHR ''/'' \<notin> set cue"
  using match_cue_number_no_slash
  by (auto simp: match_cue_only_def split: option.splits)

lemma parseHeader_parts:
  assumes "parseHeader s ctx = Some (l, cue, r)"
  shows "l \<noteq> [] \<and> CHR ''/'' \<notin> set cue"
  using assms match_list_cue_parts [of s l cue r] match_cue_only_no_slash [of s cue]
  by (auto simp: parseHeader_def known_list_def the_list_def
           split: option.splits if_splits)

lemma parseCueText_one_per_list:
  assumes "one_per_list type (cues st)"
  shows "one_per_list type (cues (parseCueText now cueText t ctx st))"
proof (cases cueText)
  case (JStr s)
  show ?thesis
  proof (cases "is_reset_text (js_trim s)")
    case True
    with JStr assms show ?thesis
      by (simp add: parseCueText_cues clearLastSeen_one_per_list clearLastSeenAll_one_per_list)
  next
    case False
    show ?thesis
    proof (cases "parseHeader (js_trim s) ctx")
      case None
      with JStr False assms show ?thesis
        by (simp add: parseCueText_cues)
    next
      case (Some h)
      obtain lst cue remainder where h: "h = (lst, cue, remainder)"
        by (cases h)
      obtain lbl fadeTime completion where
        r: "parseRemainder remainder = (lbl, fadeTime, completion)"
        by (cases "parseRemainder remainder")
      define upd where
        "upd = [(''cue_list'', JStr lst), (''label'', JStr lbl),
                (''last_seen'', JStr t), (''completion'', JStr completion)]
               @ (if fadeTime \<noteq> [] \<and> (completion = ''0%'' \<or> t = ''pending'')
                  then [(''fade_time'', JStr fadeTime)] else [])"
      have c: "cues (parseCueText now cueText t ctx st)
               = upsertCue cue upd (clearLastSeen t lst (cues st))"
        using JStr False Some h r by (simp add: parseCueText_cues upd_def)
      have l: "lst \<noteq> []"
        using parseHeader_parts Some h by blast
      have u: "get upd ''cue_list'' = JStr lst" "get upd ''last_seen'' = JStr t"
        by (simp_all add: upd_def)
      show ?thesis
        unfolding c
        by (rule one_per_list_after_mark [OF assms, of _ t lst])
           (rule seen_count_upsert [OF u(1) l u(2)])
    qed
  qed
qed (use assms in \<open>simp_all add: parseCueText_cues\<close>)

lemma cues_cueTextMessage:
  "cues (cueTextMessage now type addrList args st)
   = cues (parseCueText now (js_or (arg args 0) (JStr [])) type
             (contextList type addrList st) st)"
  by (simp add: cueTextMessage_def Let_def split: option.splits)

lemma cues_cuePerListMessage:
  "cues (cuePerListMessage now type lst cueNum st)
   = cues (setActiveCueByListAndNumber now lst cueNum type st)"
  by (simp add: cuePerListMessage_def)

lemma digits_nonempty: "digits s \<Longrightarrow> s \<noteq> []"
  by (simp add: digits_def)

lemma step_one_per_list:
  assumes "cue_event ev" and "one_per_list type (cues st)"
  shows "one_per_list type (cues (step now ev st))"
proof (cases ev)
  case (OscCueText t addrList args)
  with assms(2) show ?thesis
    by (simp add: step_def cues_cueTextMessage parseCueText_one_per_list)
next
  case (OscCuePerList t lst cueNum)
  with assms(1) have "lst \<noteq> []"
    by (simp add: cue_event_def digits_nonempty)
  with OscCuePerList assms(2) show ?thesis
    by (simp add: step_def cues_cuePerListMessage setActive_one_per_list)
qed (use assms(1) in \<open>simp_all add: cue_event_def\<close>)

lemma steps_one_per_list:
  "list_all (\<lambda>e. cue_event (snd e)) evs \<Longrightarrow> one_per_list type (cues st)
   \<Longrightarrow> one_per_list type (cues (steps evs st))"
proof (induction evs arbitrary: st)
  case Nil
  then show ?case by simp
next
  case (Cons e evs)
  obtain now ev where e: "e = (now, ev)"
    by (cases e)
  from Cons.prems have "one_per_list type (cues (step now ev st))"
    by (simp add: e step_one_per_list)
  with Cons.prems Cons.IH [of "step now ev st"] show ?case
    by (simp add: e)
qed

text \<open>
  What an event that reports a cue does to the store: after the marks of the list are
  cleared, the cue is marked in place, or it goes through \<open>updateOrCreateCue\<close> with an
  update that carries the list and the mark.
\<close>

lemma digits_no_slash: "digits s \<Longrightarrow> CHR ''/'' \<notin> set s"
  using is_digit_not_slash by (auto simp: digits_def list_all_iff)

lemma cue_of_event_form:
  assumes "cue_of_event ev st = Some (t, lst, cue)"
  shows "cues (step now ev st)
           = update_first (\<lambda>c. js_String (get c ''cue_number'') = cue \<and> cueListOf c = lst)
               (\<lambda>c. put c ''last_seen'' (JStr t)) (clearLastSeen t lst (cues st))
         \<or> (\<exists>upd. get upd ''cue_list'' = JStr lst \<and> get upd ''last_seen'' = JStr t
                \<and> get upd ''part_number'' = JUndefined
                \<and> cues (step now ev st) = upsertCue cue upd (clearLastSeen t lst (cues st)))"
proof (cases ev)
  case (OscCuePerList type l cueNum)
  with assms have e: "type = t" "l = lst" "cueNum = cue"
    by (simp_all add: cue_of_event_def)
  show ?thesis
  proof (cases "List.find (\<lambda>c. js_String (get c ''cue_number'') = cue \<and> cueListOf c = lst)
                  (clearLastSeen t lst (cues st))")
    case None
    then have "cues (step now ev st)
               = upsertCue cue [(''cue_list'', JStr lst), (''last_seen'', JStr t)]
                   (clearLastSeen t lst (cues st))"
      by (simp add: OscCuePerList e step_def cues_cuePerListMessage setActive_cues)
    moreover have "get [(''cue_list'', JStr lst), (''last_seen'', JStr t)] ''cue_list'' = JStr lst"
      "get [(''cue_list'', JStr lst), (''last_seen'', JStr t)] ''last_seen'' = JStr t"
      "get [(''cue_list'', JStr lst), (''last_seen'', JStr t)] ''part_number'' = JUndefined"
      by simp_all
    ultimately show ?thesis
      by blast
  next
    case (Some c)
    then show ?thesis
      by (simp add: OscCuePerList e step_def cues_cuePerListMessage setActive_cues)
  qed
next
  case (OscCueText type addrList args)
  from assms obtain s where s: "js_or (arg args 0) (JStr []) = JStr s"
    by (auto simp: cue_of_event_def OscCueText split: jsval.splits)
  from assms s have n: "\<not> is_reset_text (js_trim s)"
    by (auto simp: cue_of_event_def OscCueText split: if_splits)
  from assms s n obtain remainder where
    h: "parseHeader (js_trim s) (contextList type addrList st) = Some (lst, cue, remainder)"
    and t: "type = t"
    by (auto simp: cue_of_event_def OscCueText)
  obtain lbl fadeTime completion where
    r: "parseRemainder remainder = (lbl, fadeTime, completion)"
    by (cases "parseRemainder remainder")
  define upd where
    "upd = [(''cue_list'', JStr lst), (''label'', JStr lbl),
            (''last_seen'', JStr t), (''completion'', JStr completion)]
           @ (if fadeTime \<noteq> [] \<and> (completion = ''0%'' \<or> t = ''pending'')
              then [(''fade_time'', JStr fadeTime)] else [])"
  have "cues (step now ev st) = upsertCue cue upd (clearLastSeen t lst (cues st))"
    using s n h r t
    by (simp add: OscCueText step_def cues_cueTextMessage parseCueText_cues upd_def)
  moreover have "get upd ''cue_list'' = JStr lst" "get upd ''last_seen'' = JStr t"
    "get upd ''part_number'' = JUndefined"
    by (simp_all add: upd_def)
  ultimately show ?thesis
    by blast
qed (use assms in \<open>simp_all add: cue_of_event_def\<close>)

text \<open>The list of the cue has one marked cue at most, whatever was marked before.\<close>

lemma cue_of_event_marks_once:
  assumes "cue_of_event ev st = Some (t, lst, cue)" and "lst \<noteq> []"
  shows "seen_count t lst (cues (step now ev st)) \<le> 1"
proof -
  have "seen_count t lst (cues (step now ev st))
        \<le> Suc (seen_count t lst (clearLastSeen t lst (cues st)))"
    using cue_of_event_form [OF assms(1), of now]
  proof
    assume "cues (step now ev st)
            = update_first (\<lambda>c. js_String (get c ''cue_number'') = cue \<and> cueListOf c = lst)
                (\<lambda>c. put c ''last_seen'' (JStr t)) (clearLastSeen t lst (cues st))"
    then show ?thesis
      by (simp add: seen_count_def filter_update_first_le_Suc)
  next
    assume "\<exists>upd. get upd ''cue_list'' = JStr lst \<and> get upd ''last_seen'' = JStr t
              \<and> get upd ''part_number'' = JUndefined
              \<and> cues (step now ev st) = upsertCue cue upd (clearLastSeen t lst (cues st))"
    then obtain upd where u: "get upd ''cue_list'' = JStr lst" "get upd ''last_seen'' = JStr t"
      and c: "cues (step now ev st) = upsertCue cue upd (clearLastSeen t lst (cues st))"
      by blast
    show ?thesis
      unfolding c using seen_count_upsert [OF u(1) assms(2) u(2), of t lst cue] by simp
  qed
  then show ?thesis
    by (simp add: seen_count_clear_zero)
qed

text \<open>The cues of the other lists stay as they are.\<close>

lemma filter_update_first_others:
  assumes "\<And>c. p c \<Longrightarrow> \<not> q c \<and> \<not> q (f c)"
  shows "filter q (update_first p f cs) = filter q cs"
  using assms by (induction cs) auto

lemma others_clearLastSeen:
  "filter_mset (\<lambda>c. cueListOf c \<noteq> lst) (mset (clearLastSeen t lst cs))
   = filter_mset (\<lambda>c. cueListOf c \<noteq> lst) (mset cs)"
  using filter_clearLastSeen_others [of lst t cs] by (metis mset_filter)

lemma others_upsertCue:
  assumes "get upd ''cue_list'' = JStr lst" and "get upd ''last_seen'' = JStr t"
    and "get upd ''part_number'' = JUndefined"
    and "lst \<noteq> []" and "CHR ''/'' \<notin> set lst" and "CHR ''/'' \<notin> set cue"
  shows "filter_mset (\<lambda>c. cueListOf c \<noteq> lst) (mset (upsertCue cue upd cs))
         = filter_mset (\<lambda>c. cueListOf c \<noteq> lst) (mset cs)"
proof (cases "List.find (\<lambda>c. existingKey c = cueKey cue upd) cs")
  case None
  from upsertCue_new [OF None] marked_newCue [OF assms(1,4,2)] show ?thesis
    by simp
next
  case (Some c)
  have k: "cueKey cue upd = lst @ ''/'' @ cue"
    using assms(1,4,3) by (rule cueKey_list)
  have "filter (\<lambda>c. cueListOf c \<noteq> lst)
          (update_first (\<lambda>c. existingKey c = cueKey cue upd) (applyUpdates upd) cs)
        = filter (\<lambda>c. cueListOf c \<noteq> lst) cs"
  proof (rule filter_update_first_others)
    fix c
    assume "existingKey c = cueKey cue upd"
    then have "cueListOf c = lst"
      using existingKey_parts [OF assms(5,6)] k by simp
    with marked_applyUpdates [OF assms(1,4,2), of c]
    show "\<not> cueListOf c \<noteq> lst \<and> \<not> cueListOf (applyUpdates upd c) \<noteq> lst"
      by simp
  qed
  then show ?thesis
    unfolding upsertCue_found [OF Some] by (metis mset_filter)
qed

lemma cue_of_event_others:
  assumes "cue_of_event ev st = Some (t, lst, cue)" and "digits lst"
    and "CHR ''/'' \<notin> set cue"
  shows "filter_mset (\<lambda>c. cueListOf c \<noteq> lst) (mset (cues (step now ev st)))
         = filter_mset (\<lambda>c. cueListOf c \<noteq> lst) (mset (cues st))"
  using cue_of_event_form [OF assms(1), of now]
proof
  assume c: "cues (step now ev st)
          = update_first (\<lambda>c. js_String (get c ''cue_number'') = cue \<and> cueListOf c = lst)
              (\<lambda>c. put c ''last_seen'' (JStr t)) (clearLastSeen t lst (cues st))"
  have "filter (\<lambda>c. cueListOf c \<noteq> lst) (cues (step now ev st))
        = filter (\<lambda>c. cueListOf c \<noteq> lst) (clearLastSeen t lst (cues st))"
    unfolding c by (rule filter_update_first_others) simp
  then show ?thesis
    using others_clearLastSeen [of lst t "cues st"] by (metis mset_filter)
next
  assume "\<exists>upd. get upd ''cue_list'' = JStr lst \<and> get upd ''last_seen'' = JStr t
            \<and> get upd ''part_number'' = JUndefined
            \<and> cues (step now ev st) = upsertCue cue upd (clearLastSeen t lst (cues st))"
  then obtain upd where u: "get upd ''cue_list'' = JStr lst" "get upd ''last_seen'' = JStr t"
    "get upd ''part_number'' = JUndefined"
    and c: "cues (step now ev st) = upsertCue cue upd (clearLastSeen t lst (cues st))"
    by blast
  show ?thesis
    unfolding c
    using others_upsertCue [OF u digits_nonempty [OF assms(2)] digits_no_slash [OF assms(2)]
            assms(3)]
      others_clearLastSeen [of lst t "cues st"]
    by simp
qed

section \<open>The user fields of a cue whose key survives\<close>

lemma slash_split:
  assumes "slash_free a" and "slash_free b" and "a @ ''/'' @ r = b @ ''/'' @ q"
  shows "a = b \<and> r = q"
  using assms
proof (induction a arbitrary: b)
  case Nil
  then show ?case by (cases b) (auto simp: slash_free_def)
next
  case (Cons x a)
  show ?case
  proof (cases b)
    case Nil
    with Cons.prems show ?thesis by (auto simp: slash_free_def)
  next
    case (Cons y b')
    with Cons.prems Cons.IH [of b'] show ?thesis by (auto simp: slash_free_def)
  qed
qed

lemma slash_free_append [simp]: "slash_free (a @ b) \<longleftrightarrow> slash_free a \<and> slash_free b"
  by (auto simp: slash_free_def)

lemma not_slash_free_slash [simp]: "\<not> slash_free (CHR ''/'' # s)"
  by (simp add: slash_free_def)

lemma mkKey_eq:
  assumes "slash_free (js_String a)" and "slash_free n"
    and "slash_free (js_String b)" and "slash_free m"
    and "mkKey a n p = mkKey b m q"
  shows "js_String a = js_String b \<and> n = m \<and> (js_gt0 p \<longleftrightarrow> js_gt0 q)
         \<and> (js_gt0 p \<longrightarrow> js_String p = js_String q)"
proof (cases "js_gt0 p"; cases "js_gt0 q")
  assume "js_gt0 p" "js_gt0 q"
  with assms(5) have
    e: "js_String a @ ''/'' @ (n @ ''/'' @ js_String p)
        = js_String b @ ''/'' @ (m @ ''/'' @ js_String q)"
    by (simp add: mkKey_def)
  from slash_split [OF assms(1,3) e] have "js_String a = js_String b"
    and "n @ ''/'' @ js_String p = m @ ''/'' @ js_String q"
    by simp_all
  with slash_split [OF assms(2,4)] \<open>js_gt0 p\<close> \<open>js_gt0 q\<close> show ?thesis
    by simp
next
  assume "js_gt0 p" "\<not> js_gt0 q"
  with assms(5) have
    e: "js_String a @ ''/'' @ (n @ ''/'' @ js_String p) = js_String b @ ''/'' @ m"
    by (simp add: mkKey_def)
  from slash_split [OF assms(1,3) e] have "n @ ''/'' @ js_String p = m"
    by simp
  with assms(4) show ?thesis
    by auto
next
  assume "\<not> js_gt0 p" "js_gt0 q"
  with assms(5) have
    e: "js_String a @ ''/'' @ n = js_String b @ ''/'' @ (m @ ''/'' @ js_String q)"
    by (simp add: mkKey_def)
  from slash_split [OF assms(1,3) e] have "n = m @ ''/'' @ js_String q"
    by simp
  with assms(2) show ?thesis
    by auto
next
  assume "\<not> js_gt0 p" "\<not> js_gt0 q"
  with assms(5) have e: "js_String a @ ''/'' @ n = js_String b @ ''/'' @ m"
    by (simp add: mkKey_def)
  from slash_split [OF assms(1,3) e] \<open>\<not> js_gt0 p\<close> \<open>\<not> js_gt0 q\<close> show ?thesis
    by simp
qed

lemma mkKey_cong:
  assumes "js_String a = js_String b" and "js_gt0 p \<longleftrightarrow> js_gt0 q"
    and "js_gt0 p \<Longrightarrow> js_String p = js_String q"
  shows "mkKey a n p = mkKey b n q"
  using assms by (auto simp: mkKey_def)

lemma js_or_js_or [simp]: "truthy d \<Longrightarrow> js_or (js_or x d) d = js_or x d"
  by (simp add: js_or_def)

lemma truthy_one [simp]: "truthy (JStr ''1'')"
  by (simp add: truthy_def)

text \<open>A cue that is updated under its key keeps the key.\<close>

lemma key_of_updated:
  assumes "plain_cue c" and "slash_free num"
    and "slash_free (js_String (js_or (get upd ''cue_list'') (JStr ''1'')))"
    and "''cue_number'' \<notin> fst ` set upd"
    and "existingKey c = cueKey num upd"
  shows "existingKey (applyUpdates upd c) = existingKey c \<and> plain_cue (applyUpdates upd c)"
proof -
  define Lc where "Lc = js_or (get c ''cue_list'') (JStr ''1'')"
  define Lu where "Lu = js_or (get upd ''cue_list'') (JStr ''1'')"
  define pc where "pc = js_or (get c ''part_number'') (JNum (Fin 0))"
  define pu where "pu = js_or (get upd ''part_number'') (JNum (Fin 0))"
  define c' where "c' = applyUpdates upd c"
  have k: "mkKey Lc (js_String (get c ''cue_number'')) pc = mkKey Lu num pu"
    using assms(5) by (simp add: existingKey_def cueKey_def Lc_def Lu_def pc_def pu_def)
  have "slash_free (js_String Lc)" "slash_free (js_String (get c ''cue_number''))"
    using assms(1) by (simp_all add: plain_cue_def cueListOf_def Lc_def)
  from mkKey_eq [OF this assms(3) [folded Lu_def] assms(2) k]
  have e: "js_String Lc = js_String Lu" "js_gt0 pc \<longleftrightarrow> js_gt0 pu"
    "js_gt0 pc \<Longrightarrow> js_String pc = js_String pu"
    by simp_all
  have n: "get c' ''cue_number'' = get c ''cue_number''"
    using assms(4) by (simp add: c'_def get_applyUpdates)
  have l: "js_String (js_or (get c' ''cue_list'') (JStr ''1'')) = js_String Lc"
  proof (cases "''cue_list'' \<in> fst ` set upd \<and> has_data (get upd ''cue_list'')")
    case True
    then have "get c' ''cue_list'' = get upd ''cue_list''"
      by (simp add: c'_def get_applyUpdates)
    with e(1) show ?thesis
      by (simp add: Lu_def)
  next
    case False
    then have "get c' ''cue_list'' = get c ''cue_list''"
      by (auto simp: c'_def get_applyUpdates alwaysUpdateFields_def)
    then show ?thesis
      by (simp add: Lc_def)
  qed
  have p: "(js_gt0 (js_or (get c' ''part_number'') (JNum (Fin 0))) \<longleftrightarrow> js_gt0 pc)
           \<and> (js_gt0 pc \<longrightarrow> js_String (js_or (get c' ''part_number'') (JNum (Fin 0)))
                             = js_String pc)"
  proof (cases "''part_number'' \<in> fst ` set upd")
    case True
    then have "get c' ''part_number'' = get upd ''part_number''"
      by (simp add: c'_def get_applyUpdates alwaysUpdateFields_def)
    with e(2,3) show ?thesis
      by (auto simp: pu_def)
  next
    case False
    then have "get c' ''part_number'' = get c ''part_number''"
      by (simp add: c'_def get_applyUpdates)
    then show ?thesis
      by (simp add: pc_def)
  qed
  have "existingKey c' = mkKey Lc (js_String (get c ''cue_number'')) pc"
    unfolding existingKey_def n
    by (rule mkKey_cong) (use l p in auto)
  then have 1: "existingKey c' = existingKey c"
    by (simp add: existingKey_def Lc_def pc_def)
  have 2: "plain_cue c'"
    using assms(1) l n by (simp add: plain_cue_def cueListOf_def Lc_def)
  from 1 2 show ?thesis
    unfolding c'_def by simp
qed

text \<open>A record that is created has the key that was looked up.\<close>

lemma key_of_created:
  assumes "''cue_number'' \<notin> fst ` set upd"
  shows "existingKey (newCue num (js_or (get upd ''cue_list'') (JStr ''1'')) upd)
         = cueKey num upd"
    and "slash_free num
         \<Longrightarrow> slash_free (js_String (js_or (get upd ''cue_list'') (JStr ''1'')))
         \<Longrightarrow> plain_cue (newCue num (js_or (get upd ''cue_list'') (JStr ''1'')) upd)"
proof -
  define new where "new = newCue num (js_or (get upd ''cue_list'') (JStr ''1'')) upd"
  have n: "get new ''cue_number'' = JStr num"
    using assms by (simp add: new_def get_newCue)
  have l: "js_or (get new ''cue_list'') (JStr ''1'') = js_or (get upd ''cue_list'') (JStr ''1'')"
    by (cases "''cue_list'' \<in> fst ` set upd") (simp_all add: new_def get_newCue)
  have p: "js_or (get new ''part_number'') (JNum (Fin 0))
           = js_or (get upd ''part_number'') (JNum (Fin 0))"
    by (cases "''part_number'' \<in> fst ` set upd")
       (simp_all add: new_def get_newCue get_absent js_or_def truthy_def)
  show "existingKey (newCue num (js_or (get upd ''cue_list'') (JStr ''1'')) upd)
        = cueKey num upd"
    unfolding new_def [symmetric] by (simp add: existingKey_def cueKey_def n l p)
  show "plain_cue (newCue num (js_or (get upd ''cue_list'') (JStr ''1'')) upd)"
    if "slash_free num"
      and "slash_free (js_String (js_or (get upd ''cue_list'') (JStr ''1'')))"
    unfolding new_def [symmetric] using that by (simp add: plain_cue_def cueListOf_def n l)
qed

lemma carried_refl [simp]: "carried cs cs"
  unfolding carried_def kept_by_key_def using same_but_console_refl by blast

lemma kept_by_key_step:
  assumes "kept_by_key a b" and "existingKey ` set a \<subseteq> existingKey ` set b"
    and "kept_by_key b c"
  shows "kept_by_key a c"
  unfolding kept_by_key_def
proof (intro ballI impI)
  fix z
  assume z: "z \<in> set c" and k: "existingKey z \<in> existingKey ` set a"
  with assms(2) have "existingKey z \<in> existingKey ` set b"
    by blast
  with assms(3) z obtain y where y: "y \<in> set b" "existingKey y = existingKey z"
    "same_but_console y z"
    unfolding kept_by_key_def by blast
  with k have "existingKey y \<in> existingKey ` set a"
    by simp
  with assms(1) y(1) obtain x where "x \<in> set a" "existingKey x = existingKey y"
    "same_but_console x y"
    unfolding kept_by_key_def by blast
  with y show "\<exists>x \<in> set a. existingKey x = existingKey z \<and> same_but_console x z"
    using same_but_console_trans by (intro bexI [of _ x]) auto
qed

lemma carried_trans:
  assumes "carried a b" and "carried b c"
  shows "carried a c"
  unfolding carried_def
proof
  assume p: "list_all plain_cue a"
  with assms(1) have b: "list_all plain_cue b" "kept_by_key a b"
    "existingKey ` set a \<subseteq> existingKey ` set b"
    by (simp_all add: carried_def)
  with assms(2) have c: "list_all plain_cue c" "kept_by_key b c"
    "existingKey ` set b \<subseteq> existingKey ` set c"
    by (simp_all add: carried_def)
  from kept_by_key_step [OF b(2,3) c(2)] b(3) c(1,3)
  show "list_all plain_cue c \<and> kept_by_key a c
        \<and> existingKey ` set a \<subseteq> existingKey ` set c"
    by blast
qed

text \<open>An eviction after changes that evict nothing.\<close>

lemma carried_then_evicted:
  assumes "carried cs mid" and "set cs' \<subseteq> set mid" and "list_all plain_cue cs"
  shows "kept_by_key cs cs' \<and> list_all plain_cue cs'"
proof -
  from assms(1,3) have m: "list_all plain_cue mid" "kept_by_key cs mid"
    by (simp_all add: carried_def)
  from m(2) assms(2) have "kept_by_key cs cs'"
    unfolding kept_by_key_def by blast
  moreover from m(1) assms(2) have "list_all plain_cue cs'"
    unfolding list_all_iff by blast
  ultimately show ?thesis
    by simp
qed

lemma map_update_first:
  assumes "\<And>c. c \<in> set cs \<Longrightarrow> p c \<Longrightarrow> k (f c) = k c"
  shows "map k (update_first p f cs) = map k cs"
  using assms by (induction cs) auto

lemma in_update_first:
  "z \<in> set (update_first p f cs) \<Longrightarrow> z \<in> set cs \<or> (\<exists>c \<in> set cs. p c \<and> z = f c)"
  by (induction cs) (auto split: if_splits)

lemma carried_update_first:
  assumes "\<And>c. plain_cue c \<Longrightarrow> p c
            \<Longrightarrow> existingKey (f c) = existingKey c \<and> same_but_console c (f c)
                \<and> plain_cue (f c)"
  shows "carried cs (update_first p f cs)"
  unfolding carried_def
proof
  assume pl: "list_all plain_cue cs"
  then have a: "c \<in> set cs \<Longrightarrow> p c
            \<Longrightarrow> existingKey (f c) = existingKey c \<and> same_but_console c (f c)
                \<and> plain_cue (f c)" for c
    using assms by (simp add: list_all_iff)
  have "map existingKey (update_first p f cs) = map existingKey cs"
    by (rule map_update_first) (simp add: a)
  then have k: "existingKey ` set (update_first p f cs) = existingKey ` set cs"
    by (metis set_map)
  have 1: "list_all plain_cue (update_first p f cs)"
    unfolding list_all_iff
  proof
    fix z
    assume "z \<in> set (update_first p f cs)"
    from in_update_first [OF this] a pl show "plain_cue z"
      by (auto simp: list_all_iff)
  qed
  have 2: "kept_by_key cs (update_first p f cs)"
    unfolding kept_by_key_def
  proof (intro ballI impI)
    fix z
    assume "z \<in> set (update_first p f cs)"
    from in_update_first [OF this]
    show "\<exists>c \<in> set cs. existingKey c = existingKey z \<and> same_but_console c z"
    proof
      assume "z \<in> set cs"
      then show ?thesis
        using same_but_console_refl by blast
    next
      assume "\<exists>c \<in> set cs. p c \<and> z = f c"
      then obtain c where c: "c \<in> set cs" "p c" "z = f c"
        by blast
      with a [of c] have "existingKey c = existingKey z \<and> same_but_console c z"
        by simp
      with c(1) show ?thesis
        by (rule rev_bexI)
    qed
  qed
  from 1 2 k show "list_all plain_cue (update_first p f cs) \<and> kept_by_key cs (update_first p f cs)
        \<and> existingKey ` set cs \<subseteq> existingKey ` set (update_first p f cs)"
    by simp
qed

lemma carried_map:
  assumes "\<And>c. plain_cue c
            \<Longrightarrow> existingKey (g c) = existingKey c \<and> same_but_console c (g c)
                \<and> plain_cue (g c)"
  shows "carried cs (map g cs)"
  unfolding carried_def
proof
  assume pl: "list_all plain_cue cs"
  then have a: "c \<in> set cs
            \<Longrightarrow> existingKey (g c) = existingKey c \<and> same_but_console c (g c)
                \<and> plain_cue (g c)" for c
    using assms by (simp add: list_all_iff)
  have "map existingKey (map g cs) = map existingKey cs"
    using a by simp
  then have k: "existingKey ` set (map g cs) = existingKey ` set cs"
    by (metis set_map)
  have 1: "list_all plain_cue (map g cs)"
    using a by (simp add: list_all_iff)
  have 2: "kept_by_key cs (map g cs)"
    unfolding kept_by_key_def using a by auto
  from 1 2 k show "list_all plain_cue (map g cs) \<and> kept_by_key cs (map g cs)
        \<and> existingKey ` set cs \<subseteq> existingKey ` set (map g cs)"
    by simp
qed

lemma existingKey_put_last_seen [simp]:
  "existingKey (put c ''last_seen'' v) = existingKey c"
  by (simp add: existingKey_def get_put)

lemma plain_cue_put_last_seen [simp]: "plain_cue (put c ''last_seen'' v) = plain_cue c"
  by (simp add: plain_cue_def get_put)

lemma same_but_console_last_seen [simp]: "same_but_console c (put c ''last_seen'' v)"
  by (rule same_but_console_put) (simp add: console_fields_def)

lemma carried_clearLastSeen [simp]: "carried cs (clearLastSeen type lst cs)"
  unfolding clearLastSeen_def by (rule carried_map) simp

lemma carried_clearLastSeenAll [simp]: "carried cs (clearLastSeenAll type cs)"
  unfolding clearLastSeenAll_def by (rule carried_map) simp

lemma carried_mark [simp]:
  "carried cs (update_first p (\<lambda>c. put c ''last_seen'' v) cs)"
  by (rule carried_update_first) simp

text \<open>An update that holds fields of the console only, under a key without a slash.\<close>

lemma carried_upsertCue:
  assumes "fst ` set upd \<subseteq> set console_fields" and "slash_free num"
    and "slash_free (js_String (js_or (get upd ''cue_list'') (JStr ''1'')))"
  shows "carried cs (upsertCue num upd cs)"
proof -
  have n: "''cue_number'' \<notin> fst ` set upd"
    using assms(1) by (auto simp: console_fields_def)
  show ?thesis
  proof (cases "List.find (\<lambda>c. existingKey c = cueKey num upd) cs")
    case (Some c)
    show ?thesis
      unfolding upsertCue_found [OF Some]
    proof (rule carried_update_first)
      fix c
      assume "plain_cue c" and "existingKey c = cueKey num upd"
      from key_of_updated [OF this(1) assms(2,3) n this(2)]
        same_but_console_applyUpdates [OF assms(1), of c]
      show "existingKey (applyUpdates upd c) = existingKey c
            \<and> same_but_console c (applyUpdates upd c) \<and> plain_cue (applyUpdates upd c)"
        by simp
    qed
  next
    case None
    define new where "new = newCue num (js_or (get upd ''cue_list'') (JStr ''1'')) upd"
    from None have s: "set (upsertCue num upd cs) = insert new (set cs)"
      by (simp add: upsertCue_def new_def)
    from None have f: "cueKey num upd \<notin> existingKey ` set cs"
      by (auto simp: find_None_iff)
    have k: "existingKey new = cueKey num upd"
      unfolding new_def by (rule key_of_created(1) [OF n])
    have p: "plain_cue new"
      unfolding new_def by (rule key_of_created(2) [OF n assms(2,3)])
    show ?thesis
      unfolding carried_def
    proof
      assume pl: "list_all plain_cue cs"
      with p s have 1: "list_all plain_cue (upsertCue num upd cs)"
        by (simp add: list_all_iff)
      have 2: "kept_by_key cs (upsertCue num upd cs)"
        unfolding kept_by_key_def s
      proof (intro ballI impI)
        fix z
        assume z: "z \<in> insert new (set cs)" and e: "existingKey z \<in> existingKey ` set cs"
        from e f have "existingKey z \<noteq> cueKey num upd"
          by metis
        with k have "z \<noteq> new"
          by metis
        with z have "z \<in> set cs"
          by simp
        then show "\<exists>c \<in> set cs. existingKey c = existingKey z \<and> same_but_console c z"
          using same_but_console_refl by blast
      qed
      from 1 2 s show "list_all plain_cue (upsertCue num upd cs)
          \<and> kept_by_key cs (upsertCue num upd cs)
          \<and> existingKey ` set cs \<subseteq> existingKey ` set (upsertCue num upd cs)"
        by auto
    qed
  qed
qed

text \<open>The poll that is outstanding is left alone or cleared.\<close>

lemma poll_requestAllCues [simp]:
  "currentPollRequest (requestAllCues now l st) = currentPollRequest st"
  by (simp add: requestAllCues_def)

lemma poll_checkBulkRefreshComplete [simp]:
  "currentPollRequest (checkBulkRefreshComplete now st) = currentPollRequest st"
  by (simp add: checkBulkRefreshComplete_def Let_def split: list.splits)

lemma poll_handleCueCountResponse [simp]:
  "currentPollRequest (handleCueCountResponse now l cnt st) = currentPollRequest st"
  by (simp add: handleCueCountResponse_def Let_def)

lemma poll_countFallback [simp]:
  "currentPollRequest (countFallback now st) = currentPollRequest st"
  by (simp add: countFallback_def)

lemma poll_countFinal [simp]: "currentPollRequest (countFinal st) = currentPollRequest st"
  by (simp add: countFinal_def)

lemma poll_fireTimer [simp]:
  "currentPollRequest (fireTimer now k st) = currentPollRequest st"
  by (simp add: fireTimer_def runCallback_def split: timer_cb.splits)

lemma poll_playbackBlock [simp]:
  "currentPollRequest (playbackBlock now type lst cue st) = currentPollRequest st"
  by (simp add: playbackBlock_def split: option.splits)

lemma poll_timingBlock [simp]:
  "currentPollRequest (timingBlock now type lst cue lbl st) = currentPollRequest st"
  by (simp add: timingBlock_def recordTiming_def Let_def)

lemma poll_setActive [simp]:
  "currentPollRequest (setActiveCueByListAndNumber now lst cueNum type st)
   = currentPollRequest st"
  by (simp add: setActiveCueByListAndNumber_def Let_def split: option.splits)

lemma poll_parseCueText [simp]:
  "currentPollRequest (parseCueText now cueText type ctx st) = currentPollRequest st"
  by (simp add: parseCueText_def Let_def split: jsval.splits option.splits prod.splits)

lemma poll_cueTextMessage:
  "currentPollRequest (cueTextMessage now type addrList args st) = currentPollRequest st
   \<or> currentPollRequest (cueTextMessage now type addrList args st) = None"
  by (simp add: cueTextMessage_def Let_def split: option.splits)

lemma poll_cueDataResponse:
  "currentPollRequest (cueDataResponse now listNum cueNum partNumber pathCount args st)
     = currentPollRequest st
   \<or> currentPollRequest (cueDataResponse now listNum cueNum partNumber pathCount args st)
     = None"
  by (simp add: cueDataResponse_def Let_def split: option.splits jsval.splits)

lemma poll_getResponse:
  "currentPollRequest (getResponse now address args st) = currentPollRequest st
   \<or> currentPollRequest (getResponse now address args st) = None"
  using poll_cueDataResponse by (simp add: getResponse_def Let_def)

lemma poll_step:
  "currentPollRequest (step now ev st) = currentPollRequest st
   \<or> currentPollRequest (step now ev st) = None"
  using poll_getResponse poll_cueTextMessage
  by (cases ev)
     (simp_all add: step_def cuePerListMessage_def postNotes_def postColor_def postTags_def
        postTimingsStart_def postTimingsStop_def)

text \<open>The handlers of the console's messages evict nothing.\<close>

lemma slash_free_list_or_one:
  "slash_free lst \<Longrightarrow> slash_free (js_String (js_or (JStr lst) (JStr ''1'')))"
  by (simp add: js_or_def truthy_def slash_free_def)

lemma setActive_carried:
  assumes "slash_free lst" and "slash_free cueNum"
  shows "carried (cues st) (cues (setActiveCueByListAndNumber now lst cueNum type st))"
proof -
  have 3: "carried (clearLastSeen type lst (cues st))
             (upsertCue cueNum [(''cue_list'', JStr lst), (''last_seen'', JStr type)]
                (clearLastSeen type lst (cues st)))"
    by (rule carried_upsertCue)
       (use assms slash_free_list_or_one in \<open>simp_all add: console_fields_def\<close>)
  show ?thesis
    unfolding setActive_cues
    using carried_trans [OF carried_clearLastSeen carried_mark]
      carried_trans [OF carried_clearLastSeen 3]
    by (simp split: option.splits)
qed

lemma takeWhile_digit_slash_free: "slash_free (takeWhile is_digit s)"
  using takeWhile_digit_no_slash by (simp add: slash_free_def)

lemma parseHeader_plain:
  assumes "parseHeader s ctx = Some (l, cue, r)" and "slash_free (the_list ctx)"
  shows "slash_free l \<and> slash_free cue"
  using assms match_list_cue_parts [of s l cue r] match_cue_only_no_slash [of s cue]
  by (auto simp: parseHeader_def slash_free_def split: option.splits if_splits)

lemma parseCueText_carried:
  assumes "slash_free (the_list ctx)"
  shows "carried (cues st) (cues (parseCueText now cueText type ctx st))"
proof (cases cueText)
  case (JStr s)
  show ?thesis
  proof (cases "is_reset_text (js_trim s)")
    case True
    with JStr show ?thesis
      by (simp add: parseCueText_cues)
  next
    case False
    show ?thesis
    proof (cases "parseHeader (js_trim s) ctx")
      case None
      with JStr False show ?thesis
        by (simp add: parseCueText_cues)
    next
      case (Some h)
      obtain lst cue remainder where h: "h = (lst, cue, remainder)"
        by (cases h)
      obtain lbl fadeTime completion where
        r: "parseRemainder remainder = (lbl, fadeTime, completion)"
        by (cases "parseRemainder remainder")
      define upd where
        "upd = [(''cue_list'', JStr lst), (''label'', JStr lbl),
                (''last_seen'', JStr type), (''completion'', JStr completion)]
               @ (if fadeTime \<noteq> [] \<and> (completion = ''0%'' \<or> type = ''pending'')
                  then [(''fade_time'', JStr fadeTime)] else [])"
      have c: "cues (parseCueText now cueText type ctx st)
               = upsertCue cue upd (clearLastSeen type lst (cues st))"
        using JStr False Some h r by (simp add: parseCueText_cues upd_def)
      have p: "slash_free lst" "slash_free cue"
        using parseHeader_plain [OF _ assms] Some h by blast+
      have k: "fst ` set upd \<subseteq> set console_fields"
        by (auto simp: upd_def console_fields_def)
      have l: "get upd ''cue_list'' = JStr lst"
        by (simp add: upd_def)
      have "carried (clearLastSeen type lst (cues st))
              (upsertCue cue upd (clearLastSeen type lst (cues st)))"
        by (rule carried_upsertCue [OF k p(2)])
           (simp add: l slash_free_list_or_one [OF p(1)])
      from carried_trans [OF carried_clearLastSeen this] show ?thesis
        unfolding c .
    qed
  qed
qed (simp_all add: parseCueText_cues)

lemma cueUpdates_cue_list [simp]: "get (cueUpdates listNum partNumber args) ''cue_list'' = listNum"
  by (simp add: cueUpdates_def)

lemma cueDataResponse_carried:
  assumes "slash_free (js_String listNum)" and "slash_free (js_String cueNum)"
  shows "carried (cues st)
           (cues (cueDataResponse now listNum cueNum partNumber pathCount args st))"
proof -
  define st2 where
    "st2 = (case arg args 0 of
              JNum listIndex \<Rightarrow>
                handleCueIndexResponse now (js_parseInt (js_String listNum)) listIndex
                  (if bulkRefreshInProgress st \<and> pathCount \<noteq> JNull
                      \<and> bulkRefreshExpectedCount st = JNum (Fin 0)
                   then setTimeout now CompletionCheck
                          (node_delay (math_max (Fin 5000) (num_scale (to_number pathCount) 50)))
                          (st\<lparr>bulkRefreshExpectedCount := pathCount\<rparr>)
                   else st)
            | _ \<Rightarrow>
                (if bulkRefreshInProgress st \<and> pathCount \<noteq> JNull
                    \<and> bulkRefreshExpectedCount st = JNum (Fin 0)
                 then setTimeout now CompletionCheck
                        (node_delay (math_max (Fin 5000) (num_scale (to_number pathCount) 50)))
                        (st\<lparr>bulkRefreshExpectedCount := pathCount\<rparr>)
                 else st))"
  have c2: "cues st2 = cues st"
    by (simp add: st2_def split: jsval.splits)
  define st3 where
    "st3 = updateOrCreateCue (js_String cueNum) (cueUpdates listNum partNumber args) st2"
  have l: "slash_free (js_String (js_or listNum (JStr ''1'')))"
    using assms(1) by (simp add: js_or_def slash_free_def)
  have k3: "carried (cues st) (cues st3)"
    unfolding st3_def using carried_upsertCue [OF cueUpdates_keys assms(2), of listNum] l c2
    by simp
  have k4: "carried (cues st)
              (cues (setActiveCueByListAndNumber now (js_String listNum) (js_String cueNum)
                       t st3))" for t
    by (rule carried_trans [OF k3 setActive_carried [OF assms]])
  have "cueDataResponse now listNum cueNum partNumber pathCount args st = st
        \<or> cueDataResponse now listNum cueNum partNumber pathCount args st = st2
        \<or> cueDataResponse now listNum cueNum partNumber pathCount args st = st3
        \<or> (\<exists>t. cueDataResponse now listNum cueNum partNumber pathCount args st
               = (setActiveCueByListAndNumber now (js_String listNum) (js_String cueNum)
                    t st3)
                   \<lparr>cuesChanged := True, activePollingInProgress := False,
                    currentPollRequest := None\<rparr>)"
    unfolding cueDataResponse_def Let_def st3_def st2_def
    by (auto split: option.splits)
  then show ?thesis
    using k3 k4 c2 by auto
qed

text \<open>The pieces of a path hold no slash.\<close>

lemma split_slash_nonempty: "split_slash s \<noteq> []"
  by (induction s) (auto split: list.splits)

lemma split_slash_free: "seg \<in> set (split_slash s) \<Longrightarrow> slash_free seg"
proof (induction s arbitrary: seg)
  case Nil
  then show ?case by (simp add: slash_free_def)
next
  case (Cons c s)
  show ?case
  proof (cases "c = CHR ''/''")
    case True
    with Cons show ?thesis
      by (auto simp: slash_free_def)
  next
    case False
    obtain x xs where x: "split_slash s = x # xs"
      using split_slash_nonempty [of s] by (cases "split_slash s") auto
    with Cons.prems False have "seg = c # x \<or> seg \<in> set xs"
      by simp
    with Cons.IH x False show ?thesis
      by (auto simp: slash_free_def)
  qed
qed

lemma part_at_slash_free: "slash_free (js_String (part_at (split_slash s) i))"
proof (cases "0 \<le> i \<and> i < int (length (split_slash s))")
  case True
  then have "split_slash s ! nat i \<in> set (split_slash s)"
    by (intro nth_mem) linarith
  from split_slash_free [OF this] True show ?thesis
    by (simp add: part_at_def)
next
  case False
  then have "part_at (split_slash s) i = JUndefined"
    by (auto simp: part_at_def)
  then show ?thesis
    by (simp add: slash_free_def)
qed

text \<open>
  Every event but an edit of the user: the cues whose key was there before are, but for
  fields of the console, the cues that had the key.
\<close>

lemma kept_of_carried:
  "carried cs cs' \<Longrightarrow> list_all plain_cue cs
   \<Longrightarrow> kept_by_key cs cs' \<and> list_all plain_cue cs'"
  by (simp add: carried_def)

lemma kept_of_filter:
  "list_all plain_cue cs \<Longrightarrow> kept_by_key cs (filter p cs) \<and> list_all plain_cue (filter p cs)"
  by (rule carried_then_evicted [OF carried_refl]) simp_all

lemma kept_of_same:
  "list_all plain_cue cs \<Longrightarrow> kept_by_key cs cs \<and> list_all plain_cue cs"
  by (rule kept_of_carried [OF carried_refl])

lemma checkBulkRefreshComplete_kept:
  assumes "list_all plain_cue (cues st)"
  shows "kept_by_key (cues st) (cues (checkBulkRefreshComplete now st))
         \<and> list_all plain_cue (cues (checkBulkRefreshComplete now st))"
  using kept_of_filter [OF assms] kept_of_same [OF assms]
  by (simp add: cues_checkBulkRefreshComplete)

lemma handleCueCountResponse_kept_by_key:
  assumes "list_all plain_cue (cues st)"
  shows "kept_by_key (cues st) (cues (handleCueCountResponse now l cnt st))
         \<and> list_all plain_cue (cues (handleCueCountResponse now l cnt st))"
  using kept_of_filter [OF assms] kept_of_same [OF assms]
  by (simp add: handleCueCountResponse_def Let_def cues_checkBulkRefreshComplete)

lemma getResponse_kept_by_key:
  assumes "list_all plain_cue (cues st)"
  shows "kept_by_key (cues st) (cues (getResponse now address args st))
         \<and> list_all plain_cue (cues (getResponse now address args st))"
  using kept_of_same [OF assms] handleCueCountResponse_kept_by_key [OF assms]
    kept_of_carried [OF cueDataResponse_carried [OF part_at_slash_free part_at_slash_free] assms]
  by (simp add: getResponse_def Let_def)

lemma fireTimer_kept_by_key:
  assumes "list_all plain_cue (cues st)"
  shows "kept_by_key (cues st) (cues (fireTimer now k st))
         \<and> list_all plain_cue (cues (fireTimer now k st))"
  using kept_of_filter [OF assms] kept_of_same [OF assms]
  by (simp add: fireTimer_def runCallback_def cues_checkBulkRefreshComplete
      split: timer_cb.splits)

lemma the_list_contextList:
  assumes "plain_state st" and "slash_free (the_list addrList)"
  shows "slash_free (the_list (contextList type addrList st))"
  using assms
  by (auto simp: contextList_def plain_state_def the_list_def known_list_def Let_def
                 slash_free_def split: option.splits)

lemma step_kept_by_key:
  assumes "console_event ev" and "plain_state st"
  shows "kept_by_key (cues st) (cues (step now ev st)) \<and> plain_state (step now ev st)"
proof -
  from assms(2) have pl: "list_all plain_cue (cues st)"
    by (simp add: plain_state_def)
  have "kept_by_key (cues st) (cues (step now ev st))
        \<and> list_all plain_cue (cues (step now ev st))"
  proof (cases ev)
    case (OscGet address args)
    then show ?thesis
      using getResponse_kept_by_key [OF pl] by (simp add: step_def)
  next
    case (OscCueText type addrList args)
    with assms(1) have "slash_free (the_list addrList)"
      by (simp add: console_event_def)
    then have "carried (cues st)
                 (cues (parseCueText now (js_or (arg args 0) (JStr [])) type
                          (contextList type addrList st) st))"
      by (intro parseCueText_carried the_list_contextList [OF assms(2)])
    from kept_of_carried [OF this pl] show ?thesis
      by (simp add: OscCueText step_def cues_cueTextMessage)
  next
    case (OscCuePerList type lst cueNum)
    with assms(1) have "slash_free lst" "slash_free cueNum"
      by (simp_all add: console_event_def)
    from kept_of_carried [OF setActive_carried [OF this] pl] show ?thesis
      by (simp add: OscCuePerList step_def cues_cuePerListMessage)
  next
    case (TimerFired k)
    then show ?thesis
      using fireTimer_kept_by_key [OF pl] by (simp add: step_def)
  qed (use assms(1) kept_of_same [OF pl] in \<open>simp_all add: step_def console_event_def
          postTimingsStart_def postTimingsStop_def\<close>)
  moreover have "case currentPollRequest (step now ev st) of
                   None \<Rightarrow> True | Some (l, t) \<Rightarrow> slash_free l"
    using poll_step [of now ev st] assms(2) by (auto simp: plain_state_def)
  ultimately show ?thesis
    by (simp add: plain_state_def)
qed

end
